theory Spec2Isabelle
  imports Complex_Main "HOL-Library.Log_Nat"
begin

section \<open>srtnr-mini: the worker of \<^verbatim>\<open>src/worker.ts\<close>\<close>

text \<open>
  The worker is one \<^verbatim>\<open>fetch\<close> handler over two key-value namespaces and one secret.
  It is embedded as a function from a request and a world to a response and the world
  after the request. Strings are byte strings (the UTF-8 form of the JavaScript string).
\<close>

subsection \<open>JSON values and JavaScript strings\<close>

datatype json =
    JNull
  | JBool bool
  | JNumber real
  | JString string
  | JArray "json list"
  | JObject "(string \<times> json) list"

text \<open>\<^verbatim>\<open>!v\<close> of a value read from a parsed body; \<open>None\<close> is \<^verbatim>\<open>undefined\<close>.\<close>

fun truthy :: "json option \<Rightarrow> bool" where
  "truthy None = False"
| "truthy (Some JNull) = False"
| "truthy (Some (JBool b)) = b"
| "truthy (Some (JNumber x)) = (x \<noteq> 0)"
| "truthy (Some (JString s)) = (s \<noteq> [])"
| "truthy (Some (JArray xs)) = True"
| "truthy (Some (JObject kvs)) = True"

text \<open>\<^verbatim>\<open>s.startsWith(p)\<close>.\<close>

definition startsWith :: "string \<Rightarrow> string \<Rightarrow> bool" where
  "startsWith s p = (take (length p) s = p)"

text \<open>\<^verbatim>\<open>s.includes(k)\<close> of a string \<open>s\<close>: \<open>k\<close> occurs in \<open>s\<close> as a substring.\<close>

fun String_includes :: "string \<Rightarrow> string \<Rightarrow> bool" where
  "String_includes [] k = (k = [])"
| "String_includes (c # s) k = (startsWith (c # s) k \<or> String_includes s k)"

text \<open>
  \<^verbatim>\<open>v.includes(k)\<close> of a parsed JSON value \<open>v\<close> and a string \<open>k\<close>. An array has
  \<^verbatim>\<open>Array.prototype.includes\<close> (an element is the same value as \<open>k\<close>), a string has
  \<^verbatim>\<open>String.prototype.includes\<close>; on every other value the call throws a TypeError,
  which is \<open>None\<close>.
\<close>

fun value_includes :: "json \<Rightarrow> string \<Rightarrow> bool option" where
  "value_includes (JArray xs) k = Some (JString k \<in> set xs)"
| "value_includes (JString s) k = Some (String_includes s k)"
| "value_includes v k = None"

subsection \<open>What the platform supplies\<close>

text \<open>
  Three functions of the runtime are parameters of the model, each returning \<open>None\<close>
  (or \<open>False\<close>) where the runtime throws:
  \<^item> \<open>JSON_parse\<close>: \<^verbatim>\<open>JSON.parse\<close>, used on the secret;
  \<^item> \<open>decodeURIComponent\<close>: \<^verbatim>\<open>decodeURIComponent\<close>, used on the path of the info route;
  \<^item> \<open>URL_canParse\<close>: whether \<^verbatim>\<open>Response.redirect(url, 301)\<close> accepts \<open>url\<close>
    (it throws a TypeError on a string that does not parse as a URL).
\<close>

record platform =
  JSON_parse :: "string \<Rightarrow> json option"
  decodeURIComponent :: "string \<Rightarrow> string option"
  URL_canParse :: "string \<Rightarrow> bool"

subsection \<open>Data model\<close>

record StoredLink =
  originalUrl :: string
  slug :: string
  created :: string

text \<open>What \<^verbatim>\<open>getLinkInfo\<close> returns: slug, destination, created, clicks.\<close>

datatype link_info = LinkInfo string string string int

text \<open>
  \<^verbatim>\<open>env.API_KEYS\<close>: a string, or a secrets-store binding whose \<^verbatim>\<open>get()\<close> returns a
  string or null, or throws; or a value that is neither.
\<close>

datatype api_keys =
    KeysString string
  | KeysStore "string option"
  | KeysStoreThrows
  | KeysOther

text \<open>One answer of \<^verbatim>\<open>URL_KV.list\<close>: keys, list_complete, cursor.\<close>

datatype list_result = ListResult "string list" bool "string option"

datatype store = LinkStore | ClickStore

datatype kv_call =
    KvGet store string
  | KvPut store string
  | KvDelete store string
  | KvList store

text \<open>
  The world a request runs in. \<open>URL_KV\<close> is the Link Store: the worker only writes
  \<^verbatim>\<open>JSON.stringify\<close> of a \<open>StoredLink\<close> and reads it back as JSON, so a value is kept as
  the record. \<open>LINK_CLICKS_KV\<close> is the Click Store, its values the strings the worker
  writes. \<open>URL_KV_list\<close> is \<open>None\<close> when the namespace has no \<^verbatim>\<open>list\<close> and otherwise
  the successive answers of \<^verbatim>\<open>list\<close>. \<open>Math_random\<close> holds the coming results of
  \<^verbatim>\<open>Math.random()\<close>, \<open>Date_now\<close> is \<^verbatim>\<open>new Date().toISOString()\<close>, and \<open>calls\<close> records
  every call made to a namespace, in order. The namespaces are taken to answer every
  call, and a step that is not awaited is run to its end in place.
\<close>

record world =
  URL_KV :: "string \<rightharpoonup> StoredLink"
  URL_KV_list :: "list_result list option"
  LINK_CLICKS_KV :: "string \<rightharpoonup> string"
  API_KEYS :: api_keys
  Math_random :: "nat \<Rightarrow> real"
  Date_now :: string
  calls :: "kv_call list"

definition URL_KV_get :: "string \<Rightarrow> world \<Rightarrow> StoredLink option \<times> world" where
  "URL_KV_get key w = (URL_KV w key, w\<lparr>calls := calls w @ [KvGet LinkStore key]\<rparr>)"

definition URL_KV_put :: "string \<Rightarrow> StoredLink \<Rightarrow> world \<Rightarrow> world" where
  "URL_KV_put key v w =
     w\<lparr>URL_KV := (URL_KV w)(key \<mapsto> v), calls := calls w @ [KvPut LinkStore key]\<rparr>"

definition URL_KV_delete :: "string \<Rightarrow> world \<Rightarrow> world" where
  "URL_KV_delete key w =
     w\<lparr>URL_KV := (URL_KV w)(key := None), calls := calls w @ [KvDelete LinkStore key]\<rparr>"

definition LINK_CLICKS_KV_get :: "string \<Rightarrow> world \<Rightarrow> string option \<times> world" where
  "LINK_CLICKS_KV_get key w =
     (LINK_CLICKS_KV w key, w\<lparr>calls := calls w @ [KvGet ClickStore key]\<rparr>)"

definition LINK_CLICKS_KV_put :: "string \<Rightarrow> string \<Rightarrow> world \<Rightarrow> world" where
  "LINK_CLICKS_KV_put key v w =
     w\<lparr>LINK_CLICKS_KV := (LINK_CLICKS_KV w)(key \<mapsto> v),
       calls := calls w @ [KvPut ClickStore key]\<rparr>"

subsection \<open>generateSlug and getUniqueSlug\<close>

definition chars :: string where
  "chars = ''abcdefghijklmnopqrstuvwxyzABCDEFGHIJKLMNOPQRSTUVWXYZ0123456789''"

text \<open>
  The numbers of JavaScript are the IEEE 754 binary64 values, and \<^verbatim>\<open>*\<close> returns the exact
  product rounded to the nearest of them, a tie going to the even significand.
  \<open>roundHalfEven\<close> rounds a real to the nearest integer in that way.
\<close>

definition roundHalfEven :: "real \<Rightarrow> int" where
  "roundHalfEven q =
     (let f = \<lfloor>q\<rfloor>; d = q - of_int f
      in if d < 1 / 2 then f else if 1 / 2 < d then f + 1 else if even f then f else f + 1)"

text \<open>
  The binary exponent of a positive real \<open>x\<close>: the integer \<open>e\<close> with \<open>x\<close> from \<open>2 powi e\<close>
  to \<open>2 powi (e + 1)\<close>, the latter left out, that is, the floor of the logarithm of \<open>x\<close>
  to the base 2 (lemma \<open>exponent_log\<close>). It is computed from the number of bits of an
  integer: of the floor of \<open>x\<close> from 1 on, and of the ceiling of \<open>1 / x\<close> below 1.
\<close>

definition exponent :: "real \<Rightarrow> int" where
  "exponent x = (if 1 \<le> x then bitlen \<lfloor>x\<rfloor> - 1 else - bitlen (\<lceil>1 / x\<rceil> - 1))"

text \<open>
  \<open>binary64 x\<close> is the binary64 value nearest to the real \<open>x\<close>. With \<open>e\<close> the binary
  exponent of \<open>x\<close>, not below that of the subnormal numbers, the values around \<open>x\<close> are
  the multiples of \<open>2 powi (e - 52)\<close>, and \<open>x\<close> is rounded to one of them. The overflow
  to \<^verbatim>\<open>Infinity\<close>, from \<open>2 ^ 1024\<close> on, is left out: \<open>pick\<close> below reads \<^verbatim>\<open>undefined\<close> at
  \<^verbatim>\<open>Infinity\<close> as it does at every index from 62 on. \<open>isBinary64 x\<close> says that \<open>x\<close> is
  such a value, as the results of \<^verbatim>\<open>Math.random()\<close> are.
\<close>

definition binary64 :: "real \<Rightarrow> real" where
  "binary64 x =
     (if x = 0 then 0
      else
        let e = max (exponent \<bar>x\<bar>) (- 1022);
            ulp = 2 powi (e - 52)
        in sgn x * of_int (roundHalfEven (\<bar>x\<bar> / ulp)) * ulp)"

definition isBinary64 :: "real \<Rightarrow> bool" where
  "isBinary64 x = (binary64 x = x)"

text \<open>
  \<^verbatim>\<open>chars[Math.floor(r * chars.length)]\<close> (line 31), as the string that \<^verbatim>\<open>+=\<close> appends: out
  of range the index reads \<^verbatim>\<open>undefined\<close>. The product is the binary64 product, which can
  lie above the real one: at \<open>r = 1162219258676257 / 2 ^ 52\<close> the real product is
  \<open>16 - 1 / 2 ^ 51\<close> and the binary64 product is 16 (lemma \<open>pick_rounds_up\<close>).
\<close>

definition pick :: "real \<Rightarrow> string" where
  "pick r =
     (let i = \<lfloor>binary64 (r * real (length chars))\<rfloor>
      in if 0 \<le> i \<and> i < int (length chars) then [chars ! nat i] else ''undefined'')"

text \<open>The loop of \<^verbatim>\<open>generateSlug\<close>, by the number of iterations left.\<close>

fun generateSlug_loop :: "nat \<Rightarrow> string \<Rightarrow> world \<Rightarrow> string \<times> world" where
  "generateSlug_loop 0 s w = (s, w)"
| "generateSlug_loop (Suc n) s w =
     generateSlug_loop n (s @ pick (Math_random w 0))
       (w\<lparr>Math_random := (\<lambda>i. Math_random w (Suc i))\<rparr>)"

definition generateSlug :: "world \<Rightarrow> string \<times> world" where
  "generateSlug w = generateSlug_loop 6 [] w"

datatype error =
    CustomSlugExists
  | RetriesExhausted

text \<open>
  An optional string is truthy when it is there and not empty; \<open>None\<close> is
  \<^verbatim>\<open>undefined\<close>.
\<close>

definition given :: "string option \<Rightarrow> bool" where
  "given v = (case v of None \<Rightarrow> False | Some s \<Rightarrow> s \<noteq> [])"

text \<open>The loop of \<^verbatim>\<open>getUniqueSlug\<close>, by the number of iterations left.\<close>

fun getUniqueSlug_loop ::
  "nat \<Rightarrow> string option \<Rightarrow> string \<Rightarrow> world \<Rightarrow> (error + string) \<times> world" where
  "getUniqueSlug_loop 0 customSlug s w = (Inl RetriesExhausted, w)"
| "getUniqueSlug_loop (Suc n) customSlug s w =
     (case URL_KV_get s w of
        (None, w1) \<Rightarrow> (Inr s, w1)
      | (Some existing, w1) \<Rightarrow>
          if given customSlug then (Inl CustomSlugExists, w1)
          else (case generateSlug w1 of (s', w2) \<Rightarrow> getUniqueSlug_loop n customSlug s' w2))"

definition getUniqueSlug ::
  "string option \<Rightarrow> nat \<Rightarrow> world \<Rightarrow> (error + string) \<times> world" where
  "getUniqueSlug customSlug retries w =
     (case (case customSlug of
              None \<Rightarrow> generateSlug w
            | Some c \<Rightarrow> if c \<noteq> [] then (c, w) else generateSlug w) of
        (s, w0) \<Rightarrow> getUniqueSlug_loop retries customSlug s w0)"

subsection \<open>validateApiKey\<close>

text \<open>
  What \<^verbatim>\<open>request.json()\<close> gives: it rejects (\<open>Unparsable\<close>), or resolves to null, on
  which reading a member throws a TypeError, or resolves to another value, which the
  handlers see through its members \<^verbatim>\<open>url\<close> and \<^verbatim>\<open>slug\<close> only (\<open>None\<close>: the member
  is not there). The code tests \<^verbatim>\<open>url\<close> at run time, so it is any JSON value; it does
  not test \<^verbatim>\<open>slug\<close>, which is taken at its declared type, a string.
\<close>

datatype body =
    Unparsable
  | JsonNull
  | JsonValue "json option" "string option"

text \<open>
  A request: its method, the pathname and origin of its URL, the value of its
  Authorization header, and its body.
\<close>

record request =
  httpMethod :: string
  pathname :: string
  origin :: string
  authorization :: "string option"
  body :: body

text \<open>The secret value: \<open>None\<close> when reading it throws, \<open>Some None\<close> when it is null.\<close>

fun secretValue :: "api_keys \<Rightarrow> string option option" where
  "secretValue (KeysString s) = Some (Some s)"
| "secretValue (KeysStore v) = Some v"
| "secretValue KeysStoreThrows = None"
| "secretValue KeysOther = Some None"

definition validateApiKey :: "platform \<Rightarrow> request \<Rightarrow> world \<Rightarrow> json option" where
  "validateApiKey P request w =
     (case authorization request of
        None \<Rightarrow> None
      | Some authHeader \<Rightarrow>
          if authHeader = [] \<or> \<not> startsWith authHeader ''Bearer '' then None
          else
            let providedKey = drop 7 authHeader in
            (case secretValue (API_KEYS w) of
               None \<Rightarrow> None
             | Some None \<Rightarrow> None
             | Some (Some sv) \<Rightarrow>
                 if sv = [] then None
                 else
                   (case JSON_parse P sv of
                      None \<Rightarrow> None
                    | Some allowedKeys \<Rightarrow>
                        (case value_includes allowedKeys providedKey of
                           None \<Rightarrow> None
                         | Some False \<Rightarrow> None
                         | Some True \<Rightarrow> Some allowedKeys))))"

subsection \<open>parseInt and String on the click counter\<close>

text \<open>
  Numbers are integers here: a JavaScript number is exact on the integers up to
  \<open>2 ^ 53\<close> in absolute value, and the statements below stay in that range. \<open>None\<close> is
  NaN. The white space is \<^verbatim>\<open>StrWhiteSpaceChar\<close>, each code point in UTF-8.
\<close>

definition whiteSpace :: "string list" where
  "whiteSpace =
     [[CHR 0x09], [CHR 0x0A], [CHR 0x0B], [CHR 0x0C], [CHR 0x0D], [CHR 0x20],
      [CHR 0xC2, CHR 0xA0], [CHR 0xE1, CHR 0x9A, CHR 0x80],
      [CHR 0xE2, CHR 0x80, CHR 0x80], [CHR 0xE2, CHR 0x80, CHR 0x81],
      [CHR 0xE2, CHR 0x80, CHR 0x82], [CHR 0xE2, CHR 0x80, CHR 0x83],
      [CHR 0xE2, CHR 0x80, CHR 0x84], [CHR 0xE2, CHR 0x80, CHR 0x85],
      [CHR 0xE2, CHR 0x80, CHR 0x86], [CHR 0xE2, CHR 0x80, CHR 0x87],
      [CHR 0xE2, CHR 0x80, CHR 0x88], [CHR 0xE2, CHR 0x80, CHR 0x89],
      [CHR 0xE2, CHR 0x80, CHR 0x8A], [CHR 0xE2, CHR 0x80, CHR 0xA8],
      [CHR 0xE2, CHR 0x80, CHR 0xA9], [CHR 0xE2, CHR 0x80, CHR 0xAF],
      [CHR 0xE2, CHR 0x81, CHR 0x9F], [CHR 0xE3, CHR 0x80, CHR 0x80],
      [CHR 0xEF, CHR 0xBB, CHR 0xBF]]"

definition leadingWhiteSpace :: "string \<Rightarrow> string option" where
  "leadingWhiteSpace s = List.find (startsWith s) whiteSpace"

function trimStart :: "string \<Rightarrow> string" where
  "trimStart s =
     (case leadingWhiteSpace s of
        None \<Rightarrow> s
      | Some p \<Rightarrow> trimStart (drop (length p) s))"
  by pat_completeness auto
termination
proof (relation "measure length")
  show "wf (measure length)" by simp
next
  fix s p
  assume found: "leadingWhiteSpace s = Some p"
  then have "p \<in> set whiteSpace" and pre: "startsWith s p"
    by (auto simp: leadingWhiteSpace_def find_Some_iff)
  then have "p \<noteq> []"
    by (auto simp: whiteSpace_def)
  moreover have "length (take (length p) s) = length p"
    using pre by (simp add: startsWith_def)
  then have "length p \<le> length s"
    by simp
  ultimately show "(drop (length p) s, s) \<in> measure length"
    by (cases p) auto
qed

declare trimStart.simps [simp del]

definition isDigit :: "char \<Rightarrow> bool" where
  "isDigit c = (48 \<le> (of_char c :: nat) \<and> (of_char c :: nat) \<le> 57)"

definition digitValue :: "char \<Rightarrow> nat" where
  "digitValue c = of_char c - 48"

definition digitChar :: "nat \<Rightarrow> char" where
  "digitChar d = char_of (48 + d)"

text \<open>\<^verbatim>\<open>parseInt(input, 10)\<close>.\<close>

definition parseInt10 :: "string \<Rightarrow> int option" where
  "parseInt10 input =
     (let s = trimStart input;
          negative = (s \<noteq> [] \<and> hd s = CHR ''-'');
          s1 = (if s \<noteq> [] \<and> (hd s = CHR ''+'' \<or> hd s = CHR ''-'') then tl s else s);
          z = takeWhile isDigit s1
      in if z = [] then None
         else Some ((if negative then - 1 else 1) *
                    int (foldl (\<lambda>a c. 10 * a + digitValue c) 0 z)))"

text \<open>\<^verbatim>\<open>String(n)\<close> of an integer.\<close>

fun String_nat :: "nat \<Rightarrow> string" where
  "String_nat n =
     (if n < 10 then [digitChar n] else String_nat (n div 10) @ [digitChar (n mod 10)])"

declare String_nat.simps [simp del]

definition String_int :: "int \<Rightarrow> string" where
  "String_int i = (if i < 0 then CHR ''-'' # String_nat (nat (- i)) else String_nat (nat i))"

subsection \<open>Responses and the helpers of fetch\<close>

datatype payload =
    Health
  | Error string
  | Shortened string string
  | Message string
  | Info link_info
  | Links "link_info list"
  | Text string
  | Redirect string

text \<open>
  \<open>Health\<close> is \<^verbatim>\<open>{ok: true, service: 'srtnr-mini'}\<close>, \<open>Error e\<close> is \<^verbatim>\<open>{error: e}\<close>,
  \<open>Shortened u s\<close> is \<^verbatim>\<open>{shortUrl: u, slug: s}\<close>, \<open>Message m\<close> is \<^verbatim>\<open>{message: m}\<close>,
  \<open>Links ls\<close> is \<^verbatim>\<open>{links: ls}\<close>, \<open>Text t\<close> is a plain body and \<open>Redirect u\<close> is what
  \<^verbatim>\<open>Response.redirect(u, status)\<close> builds.
\<close>

record response =
  status :: nat
  payload :: payload

text \<open>\<^verbatim>\<open>json(data, init)\<close>; the status is 200 when \<^verbatim>\<open>init\<close> is left out.\<close>

definition jsonResponse :: "payload \<Rightarrow> nat \<Rightarrow> response" where
  "jsonResponse data st = \<lparr>status = st, payload = data\<rparr>"

definition getClickCount :: "string \<Rightarrow> world \<Rightarrow> int \<times> world" where
  "getClickCount key w =
     (case LINK_CLICKS_KV_get key w of
        (raw, w1) \<Rightarrow>
          (case parseInt10 (case raw of None \<Rightarrow> ''0'' | Some r \<Rightarrow> r) of
             None \<Rightarrow> (0, w1)
           | Some n \<Rightarrow> (n, w1)))"

definition incrementClickCount :: "string \<Rightarrow> world \<Rightarrow> world" where
  "incrementClickCount key w =
     (case LINK_CLICKS_KV_get key w of
        (raw, w1) \<Rightarrow>
          let current = parseInt10 (case raw of None \<Rightarrow> ''0'' | Some r \<Rightarrow> r);
              next = (case current of None \<Rightarrow> 0 | Some n \<Rightarrow> n) + 1
          in LINK_CLICKS_KV_put key (String_int next) w1)"

definition getLinkInfo :: "string \<Rightarrow> world \<Rightarrow> link_info option \<times> world" where
  "getLinkInfo key w =
     (case URL_KV_get key w of
        (None, w1) \<Rightarrow> (None, w1)
      | (Some stored, w1) \<Rightarrow>
          (case getClickCount key w1 of
             (clicks, w2) \<Rightarrow>
               (Some (LinkInfo (slug stored) (originalUrl stored) (created stored) clicks), w2)))"

definition unauthorized :: response where
  "unauthorized = jsonResponse (Error ''missing or invalid API key'') 401"

subsection \<open>The routes of fetch\<close>

text \<open>
  POST /api/shorten (lines 136 to 161). A \<^verbatim>\<open>url\<close> that is not a string is refused by
  \<^verbatim>\<open>!body.url\<close> or by \<^verbatim>\<open>typeof body.url !== 'string'\<close>.
\<close>

definition shorten :: "platform \<Rightarrow> request \<Rightarrow> world \<Rightarrow> response \<times> world" where
  "shorten P request w =
     (case validateApiKey P request w of
        None \<Rightarrow> (unauthorized, w)
      | Some allowedKeys \<Rightarrow>
          (case body request of
             Unparsable \<Rightarrow> (jsonResponse (Error ''Server Error'') 500, w)
           | JsonNull \<Rightarrow> (jsonResponse (Error ''Server Error'') 500, w)
           | JsonValue url customSlug \<Rightarrow>
               (case url of
                  Some (JString u) \<Rightarrow>
                    if \<not> truthy url \<or> \<not> startsWith u ''http''
                    then (jsonResponse (Error ''Invalid URL'') 400, w)
                    else
                      (case getUniqueSlug customSlug 5 w of
                         (Inl e, w1) \<Rightarrow> (jsonResponse (Error ''Server Error'') 500, w1)
                       | (Inr s, w1) \<Rightarrow>
                           let linkData =
                                 \<lparr>originalUrl = u, slug = s, created = Date_now w1\<rparr>;
                               w2 = URL_KV_put s linkData w1
                           in (jsonResponse (Shortened (origin request @ ''/'' @ s) s) 200, w2))
                | _ \<Rightarrow> (jsonResponse (Error ''Invalid URL'') 400, w))))"

text \<open>DELETE /api/delete (lines 164 to 186).\<close>

definition deleteLink :: "platform \<Rightarrow> request \<Rightarrow> world \<Rightarrow> response \<times> world" where
  "deleteLink P request w =
     (case validateApiKey P request w of
        None \<Rightarrow> (unauthorized, w)
      | Some allowedKeys \<Rightarrow>
          (case body request of
             Unparsable \<Rightarrow> (jsonResponse (Error ''server error'') 500, w)
           | JsonNull \<Rightarrow> (jsonResponse (Error ''server error'') 500, w)
           | JsonValue url None \<Rightarrow> (jsonResponse (Error ''missing slug'') 400, w)
           | JsonValue url (Some s) \<Rightarrow>
               if s = [] then (jsonResponse (Error ''missing slug'') 400, w)
               else
                 (case URL_KV_get s w of
                    (None, w1) \<Rightarrow> (jsonResponse (Error ''slug not found'') 404, w1)
                  | (Some existing, w1) \<Rightarrow>
                      (jsonResponse (Message ''link deleted'') 200, URL_KV_delete s w1))))"

text \<open>
  GET /api/links/:slug and /links/:slug (lines 189 to 208). The path is decoded
  before the key is validated, outside the inner \<^verbatim>\<open>try\<close>: when decoding throws, the
  \<^verbatim>\<open>catch\<close> of line 271 answers.
\<close>

definition linkInfo :: "platform \<Rightarrow> request \<Rightarrow> world \<Rightarrow> response \<times> world" where
  "linkInfo P request w =
     (let base = (if startsWith (pathname request) ''/api/links/''
                  then ''/api/links/'' else ''/links/'')
      in case decodeURIComponent P (drop (length base) (pathname request)) of
           None \<Rightarrow> (\<lparr>status = 500, payload = Text ''server error''\<rparr>, w)
         | Some s \<Rightarrow>
             (case validateApiKey P request w of
                None \<Rightarrow> (unauthorized, w)
              | Some allowedKeys \<Rightarrow>
                  (case getLinkInfo s w of
                     (None, w1) \<Rightarrow> (jsonResponse (Error ''slug not found'') 404, w1)
                   | (Some info, w1) \<Rightarrow> (jsonResponse (Info info) 200, w1))))"

text \<open>
  The \<^verbatim>\<open>do ... while (cursor)\<close> loop of the list route over the answers of
  \<^verbatim>\<open>URL_KV.list\<close>; it ends with the answers.
\<close>

fun listKeys :: "list_result list \<Rightarrow> world \<Rightarrow> string list \<times> world" where
  "listKeys [] w = ([], w)"
| "listKeys (ListResult keys list_complete cursor # rest) w =
     (let w1 = w\<lparr>calls := calls w @ [KvList LinkStore]\<rparr>
      in if list_complete \<or> \<not> given cursor then (keys, w1)
         else (case listKeys rest w1 of (later, w2) \<Rightarrow> (keys @ later, w2)))"

text \<open>\<^verbatim>\<open>getLinkInfo\<close> of every key, one after the other.\<close>

fun getLinkInfos :: "string list \<Rightarrow> world \<Rightarrow> link_info option list \<times> world" where
  "getLinkInfos [] w = ([], w)"
| "getLinkInfos (k # ks) w =
     (case getLinkInfo k w of
        (r, w1) \<Rightarrow> (case getLinkInfos ks w1 of (rs, w2) \<Rightarrow> (r # rs, w2)))"

text \<open>
  GET /api/links and /links (lines 211 to 246). \<^verbatim>\<open>Array.from(new Set(keys))\<close> keeps the
  first of equal keys.
\<close>

definition listLinks :: "platform \<Rightarrow> request \<Rightarrow> world \<Rightarrow> response \<times> world" where
  "listLinks P request w =
     (case validateApiKey P request w of
        None \<Rightarrow> (unauthorized, w)
      | Some allowedKeys \<Rightarrow>
          (case URL_KV_list w of
             None \<Rightarrow>
               (jsonResponse (Error ''KV list not supported in this environment'') 501, w)
           | Some answers \<Rightarrow>
               (case listKeys answers w of
                  (keys, w1) \<Rightarrow>
                    let uniqueKeys = rev (remdups (rev keys)) in
                    (case getLinkInfos uniqueKeys w1 of
                       (results, w2) \<Rightarrow>
                         (jsonResponse (Links (List.map_filter id results)) 200, w2)))))"

text \<open>
  The redirect of a slug (lines 249 to 268). The increment is started before
  \<^verbatim>\<open>Response.redirect\<close> is called, with \<^verbatim>\<open>ctx.waitUntil\<close> or without it; when
  \<^verbatim>\<open>Response.redirect\<close> throws, the \<^verbatim>\<open>catch\<close> of line 264 answers 500.
\<close>

definition redirect :: "platform \<Rightarrow> request \<Rightarrow> world \<Rightarrow> response \<times> world" where
  "redirect P request w =
     (let s = (if startsWith (pathname request) ''/''
               then drop 1 (pathname request) else pathname request)
      in if s = [] then (\<lparr>status = 404, payload = Text ''not found''\<rparr>, w)
         else
           (case URL_KV_get s w of
              (None, w1) \<Rightarrow> (\<lparr>status = 404, payload = Text ''not found''\<rparr>, w1)
            | (Some stored, w1) \<Rightarrow>
                let w2 = incrementClickCount s w1 in
                if URL_canParse P (originalUrl stored)
                then (\<lparr>status = 301, payload = Redirect (originalUrl stored)\<rparr>, w2)
                else (\<lparr>status = 500, payload = Text ''server error''\<rparr>, w2)))"

subsection \<open>fetch\<close>

definition fetch :: "platform \<Rightarrow> request \<Rightarrow> world \<Rightarrow> response \<times> world" where
  "fetch P request w =
     (let m = httpMethod request; path = pathname request in
      if m = ''GET'' \<and> path = ''/'' then (jsonResponse Health 200, w)
      else if m = ''POST'' \<and> path = ''/api/shorten'' then shorten P request w
      else if m = ''DELETE'' \<and> path = ''/api/delete'' then deleteLink P request w
      else if m = ''GET'' \<and>
              ((startsWith path ''/api/links/'' \<and> length path > length ''/api/links/'') \<or>
               (startsWith path ''/links/'' \<and> length path > length ''/links/''))
           then linkInfo P request w
      else if m = ''GET'' \<and>
              (path = ''/api/links'' \<or> path = ''/api/links/'' \<or>
               path = ''/links'' \<or> path = ''/links/'')
           then listLinks P request w
      else if m = ''GET'' \<and> \<not> startsWith path ''/api/'' then redirect P request w
      else (\<lparr>status = 404, payload = Text ''not found''\<rparr>, w))"

subsection \<open>Notions used in the statements\<close>

text \<open>
  The paths that the info route and the list route take before the redirect is tried.
\<close>

definition reservedPath :: "string \<Rightarrow> bool" where
  "reservedPath path =
     ((startsWith path ''/api/links/'' \<and> length path > length ''/api/links/'') \<or>
      (startsWith path ''/links/'' \<and> length path > length ''/links/'') \<or>
      path = ''/api/links'' \<or> path = ''/api/links/'' \<or>
      path = ''/links'' \<or> path = ''/links/'')"

text \<open>
  The \<open>i\<close>-th slug that \<^verbatim>\<open>generateSlug\<close> makes from the world \<open>w\<close> on: it is built
  from the results \<open>6 * i\<close> to \<open>6 * i + 5\<close> of \<^verbatim>\<open>Math.random()\<close>.
\<close>

definition candidate :: "world \<Rightarrow> nat \<Rightarrow> string" where
  "candidate w i = concat (map (\<lambda>j. pick (Math_random w (6 * i + j))) [0..<6])"

text \<open>
  The characters of a plain slug: the ASCII letters, the digits, the hyphen and the
  underscore. The URL parser leaves a path made of a slash and such characters as it
  is (no percent-encoding, no dot segment, no separator), so the \<^verbatim>\<open>pathname\<close> of a GET
  of the origin, a slash and a plain slug is the slash and the slug.
\<close>

definition slugChars :: string where
  "slugChars = chars @ ''-_''"

text \<open>The slugs that the loop of \<^verbatim>\<open>getUniqueSlug\<close> looks up, started on \<open>s\<close>.\<close>

definition tested :: "string \<Rightarrow> world \<Rightarrow> nat \<Rightarrow> string" where
  "tested s w k = (case k of 0 \<Rightarrow> s | Suc j \<Rightarrow> candidate w j)"

subsection \<open>Concrete inputs\<close>

text \<open>
  A platform for the concrete runs. Its \<open>JSON_parse\<close> knows two texts, the array
  \<^verbatim>\<open>["k1","k2"]\<close> and the string \<^verbatim>\<open>"my-secret-key"\<close>; its \<open>decodeURIComponent\<close> returns a
  string with no percent sign as it is and throws on the others, among them \<^verbatim>\<open>%FF\<close>, on
  which the runtime throws a URIError (the byte is no UTF-8); its \<open>URL_canParse\<close> accepts
  two absolute URLs.
\<close>

definition sampleParse :: "string \<Rightarrow> json option" where
  \<open>sampleParse s =
     (if s = ''["k1","k2"]'' then Some (JArray [JString ''k1'', JString ''k2''])
      else if s = ''"my-secret-key"'' then Some (JString ''my-secret-key'')
      else None)\<close>

definition sampleDecode :: "string \<Rightarrow> string option" where
  "sampleDecode s = (if CHR ''%'' \<in> set s then None else Some s)"

definition samplePlatform :: platform where
  "samplePlatform =
     \<lparr>JSON_parse = sampleParse, decodeURIComponent = sampleDecode,
      URL_canParse = (\<lambda>u. u = ''https://a.com'' \<or> u = ''https://b.com'')\<rparr>"

text \<open>
  A world with one link, \<^verbatim>\<open>abc123\<close> to \<^verbatim>\<open>https://a.com\<close>, no click counter, the two
  keys \<^verbatim>\<open>k1\<close> and \<^verbatim>\<open>k2\<close>, and a \<^verbatim>\<open>Math.random()\<close> that returns 0.
\<close>

definition sampleWorld :: world where
  \<open>sampleWorld =
     \<lparr>URL_KV = [''abc123'' \<mapsto>
         \<lparr>originalUrl = ''https://a.com'', slug = ''abc123'',
          created = ''2025-01-01T00:00:00.000Z''\<rparr>],
      URL_KV_list = None,
      LINK_CLICKS_KV = Map.empty,
      API_KEYS = KeysString ''["k1","k2"]'',
      Math_random = (\<lambda>i. 0),
      Date_now = ''2025-06-01T12:00:00.000Z'',
      calls = []\<rparr>\<close>

text \<open>
  The same world with a \<^verbatim>\<open>Math.random()\<close> that returns \<open>1162219258676257 / 2 ^ 52\<close>, a
  binary64 value whose binary64 product with 62 is 16 and whose real product is below 16.
\<close>

definition roundingWorld :: world where
  "roundingWorld = sampleWorld\<lparr>Math_random := (\<lambda>i. 1162219258676257 / 2 ^ 52)\<rparr>"

definition sampleRequest :: "string \<Rightarrow> string \<Rightarrow> string option \<Rightarrow> body \<Rightarrow> request" where
  "sampleRequest m path auth b =
     \<lparr>httpMethod = m, pathname = path, origin = ''https://sho.rt'',
      authorization = auth, body = b\<rparr>"

section \<open>Properties\<close>

subsection \<open>Dispatch\<close>

lemma fetch_shorten:
  "httpMethod r = ''POST'' \<Longrightarrow> pathname r = ''/api/shorten'' \<Longrightarrow> fetch P r w = shorten P r w"
  by (simp add: fetch_def)

lemma fetch_deleteLink:
  "httpMethod r = ''DELETE'' \<Longrightarrow> pathname r = ''/api/delete'' \<Longrightarrow>
   fetch P r w = deleteLink P r w"
  by (simp add: fetch_def)

lemma fetch_linkInfo:
  "httpMethod r = ''GET'' \<Longrightarrow>
   (startsWith (pathname r) ''/api/links/'' \<and> length (pathname r) > length ''/api/links/'') \<or>
   (startsWith (pathname r) ''/links/'' \<and> length (pathname r) > length ''/links/'') \<Longrightarrow>
   fetch P r w = linkInfo P r w"
  by (auto simp: fetch_def Let_def startsWith_def)

lemma fetch_listLinks:
  "httpMethod r = ''GET'' \<Longrightarrow>
   pathname r \<in> {''/api/links'', ''/api/links/'', ''/links'', ''/links/''} \<Longrightarrow>
   fetch P r w = listLinks P r w"
  by (auto simp: fetch_def Let_def startsWith_def)

lemma fetch_redirect:
  "httpMethod r = ''GET'' \<Longrightarrow> pathname r = ''/'' @ s \<Longrightarrow> s \<noteq> [] \<Longrightarrow>
   \<not> reservedPath (pathname r) \<Longrightarrow> \<not> startsWith (pathname r) ''/api/'' \<Longrightarrow>
   fetch P r w = redirect P r w"
  by (auto simp: fetch_def Let_def reservedPath_def)

subsection \<open>Slug generation and the retry loop\<close>

lemma generateSlug_loop_eq:
  "generateSlug_loop n acc w =
     (acc @ concat (map (\<lambda>j. pick (Math_random w j)) [0..<n]),
      w\<lparr>Math_random := (\<lambda>i. Math_random w (i + n))\<rparr>)"
proof (induction n arbitrary: acc w)
  case 0
  then show ?case by simp
next
  case (Suc n)
  show ?case
    by (simp add: Suc.IH map_upt_Suc del: upt_Suc)
qed

lemma generateSlug_eq:
  "generateSlug w = (candidate w 0, w\<lparr>Math_random := (\<lambda>i. Math_random w (i + 6))\<rparr>)"
  by (simp add: generateSlug_def generateSlug_loop_eq candidate_def)

lemma candidate_shift:
  "Math_random w' = (\<lambda>i. Math_random w (i + 6)) \<Longrightarrow> candidate w' k = candidate w (Suc k)"
  by (simp add: candidate_def add.commute add.left_commute)

lemma candidate_calls [simp]: "candidate (w\<lparr>calls := cs\<rparr>) k = candidate w k"
  by (simp add: candidate_def)

lemma pick_length: "1 \<le> length (pick r)"
  by (simp add: pick_def Let_def)

text \<open>Rounding to the nearest integer moves a number by a half at most.\<close>

lemma roundHalfEven_bounds:
  "q - 1 / 2 \<le> of_int (roundHalfEven q) \<and> of_int (roundHalfEven q) \<le> q + 1 / 2"
proof -
  have "of_int \<lfloor>q\<rfloor> \<le> q" "q < of_int \<lfloor>q\<rfloor> + 1"
    by linarith+
  then show ?thesis
    unfolding roundHalfEven_def Let_def by (auto; linarith)
qed

lemma roundHalfEven_nonneg: "0 \<le> q \<Longrightarrow> 0 \<le> roundHalfEven q"
  by (auto simp: roundHalfEven_def Let_def)

text \<open>The binary exponent is the floor of the logarithm to the base 2.\<close>

lemma powi_powr: "(2::real) powi k = 2 powr of_int k"
  by (simp add: powr_real_of_int')

lemma exponent_bounds:
  assumes "0 < x"
  shows "2 powi exponent x \<le> x \<and> x < 2 powi (exponent x + 1)"
proof (cases "1 \<le> x")
  case True
  define n where "n = \<lfloor>x\<rfloor>"
  have n: "1 \<le> n" "of_int n \<le> x" "x < of_int n + 1"
    using True unfolding n_def by linarith+
  define b where "b = bitlen n"
  have b1: "1 \<le> b"
    using n(1) unfolding b_def by (simp add: bitlen_alt_def)
  have bnd: "2 ^ nat (b - 1) \<le> n" "n < 2 ^ nat b"
    using bitlen_bounds [of n] n(1) unfolding b_def by simp_all
  have e: "exponent x = b - 1"
    using True by (simp add: exponent_def b_def n_def)
  have "(2::real) powi (b - 1) = of_int (2 ^ nat (b - 1))"
    using b1 by (simp add: power_int_def)
  also have "\<dots> \<le> of_int n"
    using bnd(1) by (simp only: of_int_le_iff)
  finally have lo: "2 powi (b - 1) \<le> x"
    using n(2) by linarith
  have "n + 1 \<le> 2 ^ nat b"
    using bnd(2) by simp
  then have "(of_int (n + 1) :: real) \<le> of_int (2 ^ nat b)"
    by (simp only: of_int_le_iff)
  moreover have "(2::real) powi b = of_int (2 ^ nat b)"
    using b1 by (simp add: power_int_def)
  moreover have "(of_int (n + 1) :: real) = of_int n + 1"
    by simp
  ultimately have "x < 2 powi b"
    using n(3) by linarith
  with lo show ?thesis
    unfolding e by simp
next
  case False
  define y where "y = 1 / x"
  have y: "1 < y" "0 < y" "x = 1 / y"
    using False assms by (simp_all add: y_def)
  define m where "m = \<lceil>y\<rceil> - 1"
  have m: "1 \<le> m" "of_int m < y" "y \<le> of_int m + 1"
    using y(1) unfolding m_def by linarith+
  define b where "b = bitlen m"
  have b1: "1 \<le> b"
    using m(1) unfolding b_def by (simp add: bitlen_alt_def)
  have bnd: "2 ^ nat (b - 1) \<le> m" "m < 2 ^ nat b"
    using bitlen_bounds [of m] m(1) unfolding b_def by simp_all
  have e: "exponent x = - b"
    using False by (simp add: exponent_def b_def m_def y_def)
  have "(of_int (2 ^ nat (b - 1)) :: real) \<le> of_int m"
    using bnd(1) by (simp only: of_int_le_iff)
  moreover have "(of_int (2 ^ nat (b - 1)) :: real) = 2 ^ nat (b - 1)"
    by simp
  ultimately have ylo: "2 ^ nat (b - 1) < y"
    using m(2) by linarith
  have "m + 1 \<le> 2 ^ nat b"
    using bnd(2) by simp
  then have "(of_int (m + 1) :: real) \<le> of_int (2 ^ nat b)"
    by (simp only: of_int_le_iff)
  moreover have "(of_int (2 ^ nat b) :: real) = 2 ^ nat b" "(of_int (m + 1) :: real) = of_int m + 1"
    by simp_all
  ultimately have yup: "y \<le> 2 ^ nat b"
    using m(3) by linarith
  have 1: "(2::real) powi (- b) = 1 / 2 ^ nat b"
    using b1 by (simp add: power_int_def field_simps)
  have 2: "(2::real) powi (- b + 1) = 1 / 2 ^ nat (b - 1)"
    using b1 by (cases "b = 1") (simp_all add: power_int_def field_simps nat_diff_distrib)
  have "1 / 2 ^ nat b \<le> 1 / y"
    using yup y(2) by (simp add: frac_le)
  moreover have "1 / y < 1 / 2 ^ nat (b - 1)"
    using ylo by (simp add: frac_less2)
  ultimately have "1 / 2 ^ nat b \<le> x" "x < 1 / 2 ^ nat (b - 1)"
    using y(3) by simp_all
  then show ?thesis
    unfolding e 1 2 by simp
qed

lemma exponent_log: "0 < x \<Longrightarrow> exponent x = \<lfloor>log 2 x\<rfloor>"
  using exponent_bounds [of x]
  by (simp add: floor_log_eq_powr_iff [THEN iffD2] powi_powr)

lemma binary64_log:
  "binary64 x =
     (if x = 0 then 0
      else
        let e = max \<lfloor>log 2 \<bar>x\<bar>\<rfloor> (- 1022);
            ulp = 2 powr (of_int e - 52)
        in sgn x * of_int (roundHalfEven (\<bar>x\<bar> / ulp)) * ulp)"
  by (simp add: binary64_def exponent_log powi_powr Let_def)

lemma binary64_0: "binary64 0 = 0"
  by (simp add: binary64_def)

lemma binary64_nonneg: "0 \<le> x \<Longrightarrow> 0 \<le> binary64 x"
  by (auto simp: binary64_log Let_def roundHalfEven_nonneg)

text \<open>Rounding to binary64 adds half a unit in the last place at most.\<close>

lemma binary64_upper:
  assumes "0 < x"
  shows "binary64 x \<le> x + 2 powr (of_int (max \<lfloor>log 2 x\<rfloor> (- 1022)) - 52) / 2"
proof -
  let ?ulp = "(2::real) powr (of_int (max \<lfloor>log 2 x\<rfloor> (- 1022)) - 52)"
  have pos: "0 < ?ulp"
    by simp
  have "of_int (roundHalfEven (x / ?ulp)) \<le> x / ?ulp + 1 / 2"
    using roundHalfEven_bounds [of "x / ?ulp"] by simp
  then have "of_int (roundHalfEven (x / ?ulp)) * ?ulp \<le> (x / ?ulp + 1 / 2) * ?ulp"
    using pos by (simp only: mult_le_cancel_right_pos)
  also have "\<dots> = x + ?ulp / 2"
    using pos by (simp add: field_simps)
  finally show ?thesis
    using assms by (simp add: binary64_log Let_def)
qed

text \<open>
  The largest binary64 value below 1 is \<open>1 - 1 / 2 ^ 53\<close>: from a half on, the binary64
  values are the multiples of \<open>1 / 2 ^ 53\<close>.
\<close>

lemma unit_binary64_le:
  assumes "isBinary64 r" "0 \<le> r" "r < 1"
  shows "r \<le> 1 - 1 / 2 ^ 53"
proof (cases "r < 1 / 2")
  case True
  have "(1::real) / 2 ^ 53 \<le> 1 / 2"
    by simp
  then show ?thesis
    using True by linarith
next
  case False
  then have half: "1 / 2 \<le> r" and pos: "0 < r"
    by simp_all
  have "\<lfloor>log 2 r\<rfloor> = - 1"
    using half assms(3) pos by (subst floor_log_eq_powr_iff) (simp_all add: powr_minus field_simps)
  then have ulp: "(2::real) powr (of_int (max \<lfloor>log 2 \<bar>r\<bar>\<rfloor> (- 1022)) - 52) = 1 / 2 ^ 53"
    using pos by (simp add: powr_neg_numeral)
  define k where "k = roundHalfEven (r * 2 ^ 53)"
  have r: "r = of_int k / 2 ^ 53"
    using assms(1) pos unfolding isBinary64_def binary64_log Let_def ulp k_def by simp
  then have "of_int k < (2 ^ 53 :: real)"
    using assms(3) by (simp add: field_simps)
  then have "(of_int k :: real) < of_int (2 ^ 53)"
    by simp
  then have "k < 2 ^ 53"
    by (simp only: of_int_less_iff)
  then have "k \<le> 2 ^ 53 - 1"
    by simp
  then have "(of_int k :: real) \<le> of_int (2 ^ 53 - 1)"
    by (simp only: of_int_le_iff)
  then have "(of_int k :: real) \<le> 2 ^ 53 - 1"
    by simp
  then show ?thesis
    unfolding r by (simp add: field_simps)
qed

text \<open>
  The binary64 product of 62 and a binary64 value below 1 is below 62: the real product
  is at most \<open>62 - 62 / 2 ^ 53\<close>, and from 32 on the rounding adds \<open>32 / 2 ^ 53\<close> at most.
\<close>

lemma binary64_below_62:
  assumes "0 \<le> x" "x \<le> 62 - 62 / 2 ^ 53"
  shows "binary64 x < 62"
proof (cases "x = 0")
  case True
  then show ?thesis
    by (simp add: binary64_0)
next
  case False
  then have pos: "0 < x"
    using assms(1) by simp
  let ?e = "max \<lfloor>log 2 x\<rfloor> (- 1022)"
  have x64: "x < 2 powr 6"
    using assms(2) by simp
  have "log 2 x < 6"
    using pos x64 by (simp add: log_less_iff)
  then have e5: "?e \<le> 5"
    by (simp add: floor_le_iff)
  show ?thesis
  proof (cases "x < 32")
    case True
    have "(2::real) powr (of_int ?e - 52) \<le> 2 powr (5 - 52)"
      using e5 by (intro powr_mono) simp_all
    also have "\<dots> \<le> 1"
      by (simp add: powr_neg_numeral)
    finally have "(2::real) powr (of_int ?e - 52) / 2 \<le> 1"
      by simp
    then show ?thesis
      using binary64_upper [OF pos] True by linarith
  next
    case False
    have "(2::real) powr (of_int ?e - 52) \<le> 2 powr (5 - 52)"
      using e5 by (intro powr_mono) simp_all
    also have "\<dots> = 1 / 2 ^ 47"
      by (simp add: powr_neg_numeral)
    finally have "(2::real) powr (of_int ?e - 52) / 2 \<le> 32 / 2 ^ 53"
      by simp
    then have "binary64 x \<le> 62 - 62 / 2 ^ 53 + 32 / 2 ^ 53"
      using binary64_upper [OF pos] assms(2) by linarith
    also have "\<dots> < (62::real)"
      by simp
    finally show ?thesis .
  qed
qed

lemma pick_in_range:
  assumes "isBinary64 r" "0 \<le> r" "r < 1"
  shows "\<exists>c. pick r = [c] \<and> c \<in> set chars"
proof -
  have len: "length chars = 62" by (simp add: chars_def)
  let ?i = "\<lfloor>binary64 (r * 62)\<rfloor>"
  have "r \<le> 1 - 1 / 2 ^ 53"
    using assms by (rule unit_binary64_le)
  then have "r * 62 \<le> 62 - 62 / 2 ^ 53"
    by simp
  moreover have "0 \<le> r * 62"
    using assms(2) by simp
  ultimately have "binary64 (r * 62) < 62" "0 \<le> binary64 (r * 62)"
    by (simp_all add: binary64_below_62 binary64_nonneg)
  then have up: "?i < 62" and lo: "0 \<le> ?i"
    by (simp_all add: floor_less_iff)
  from lo up have "nat ?i < length chars"
    unfolding len by linarith
  then have "chars ! nat ?i \<in> set chars"
    by (rule nth_mem)
  moreover have "pick r = [chars ! nat ?i]"
    using lo up by (simp add: pick_def Let_def len)
  ultimately show ?thesis
    by blast
qed

text \<open>
  A result of \<^verbatim>\<open>Math.random()\<close> on which the binary64 product is above the real one: the
  real product is \<open>16 - 1 / 2 ^ 51\<close>, between the binary64 values \<open>16 - 1 / 2 ^ 49\<close> and
  16 and nearer to 16, so the index is 16 and the character \<^verbatim>\<open>q\<close>, where the floor of
  the real product is 15.
\<close>

lemma isBinary64_rounds_up: "isBinary64 (1162219258676257 / 2 ^ 52)"
proof -
  let ?r = "1162219258676257 / 2 ^ 52 :: real"
  have "\<lfloor>log 2 ?r\<rfloor> = - 2"
    by (subst floor_log_eq_powr_iff) (simp_all add: powr_neg_numeral)
  then have ulp: "(2::real) powr (of_int (max \<lfloor>log 2 \<bar>?r\<bar>\<rfloor> (- 1022)) - 52) = 1 / 2 ^ 54"
    by (simp add: powr_neg_numeral)
  have q: "\<bar>?r\<bar> / (1 / 2 ^ 54) = 4648877034705028"
    by simp
  have "roundHalfEven 4648877034705028 = 4648877034705028"
    unfolding roundHalfEven_def Let_def by simp
  then show ?thesis
    unfolding isBinary64_def binary64_log Let_def ulp q by simp
qed

lemma binary64_rounds_up: "binary64 (1162219258676257 / 2 ^ 52 * 62) = 16"
proof -
  let ?x = "1162219258676257 / 2 ^ 52 * 62 :: real"
  have "\<lfloor>log 2 ?x\<rfloor> = 3"
    by (subst floor_log_eq_powr_iff) simp_all
  then have ulp: "(2::real) powr (of_int (max \<lfloor>log 2 \<bar>?x\<bar>\<rfloor> (- 1022)) - 52) = 1 / 2 ^ 49"
    by (simp add: powr_neg_numeral)
  have q: "\<bar>?x\<bar> / (1 / 2 ^ 49) = 9007199254740992 - 1 / 4"
    by simp
  have fl: "\<lfloor>9007199254740992 - 1 / 4 :: real\<rfloor> = 9007199254740991"
    by (simp add: floor_eq_iff)
  have "roundHalfEven (9007199254740992 - 1 / 4) = 9007199254740992"
    unfolding roundHalfEven_def Let_def fl by simp
  then show ?thesis
    unfolding binary64_log Let_def ulp q by simp
qed

lemma pick_rounds_up:
  "\<lfloor>1162219258676257 / 2 ^ 52 * 62 :: real\<rfloor> = 15 \<and> pick (1162219258676257 / 2 ^ 52) = ''q''"
  using binary64_rounds_up by (simp add: pick_def chars_def floor_eq_iff)

lemma candidate_nonempty: "candidate w k \<noteq> []"
proof -
  have "pick (Math_random w (6 * k)) \<noteq> []"
    using pick_length [of "Math_random w (6 * k)"] by auto
  then show ?thesis
    by (simp add: candidate_def upt_conv_Cons)
qed

lemma candidate_shape:
  assumes "\<forall>i. isBinary64 (Math_random w i) \<and> 0 \<le> Math_random w i \<and> Math_random w i < 1"
  shows "length (candidate w k) = 6 \<and> set (candidate w k) \<subseteq> set chars"
proof -
  have "\<forall>j. \<exists>c. pick (Math_random w (6 * k + j)) = [c] \<and> c \<in> set chars"
    using assms pick_in_range by blast
  then obtain f where f: "\<forall>j. pick (Math_random w (6 * k + j)) = [f j] \<and> f j \<in> set chars"
    by metis
  then have "candidate w k = map f [0..<6]"
    by (simp add: candidate_def upt_conv_Cons)
  then show ?thesis using f by (auto simp: upt_conv_Cons)
qed


lemma tested_step:
  "Math_random w' = (\<lambda>i. Math_random w (i + 6)) \<Longrightarrow>
   tested (candidate w 0) w' k = tested s w (Suc k)"
  by (cases k) (simp_all add: tested_def candidate_shift)

lemma loop_exhausted:
  assumes "\<not> given c"
  shows "(\<forall>j<n. URL_KV w (tested s w j) \<noteq> None) \<Longrightarrow>
         getUniqueSlug_loop n c s w =
           (Inl RetriesExhausted,
            w\<lparr>Math_random := (\<lambda>i. Math_random w (i + 6 * n)),
              calls := calls w @ map (\<lambda>j. KvGet LinkStore (tested s w j)) [0..<n]\<rparr>)"
proof (induction n arbitrary: s w)
  case 0
  then show ?case by simp
next
  case (Suc n)
  let ?w2 = "w\<lparr>calls := calls w @ [KvGet LinkStore s],
               Math_random := (\<lambda>i. Math_random w (i + 6))\<rparr>"
  from Suc.prems have here: "URL_KV w s \<noteq> None"
    by (auto simp: tested_def dest: spec [of _ 0])
  have rest: "\<forall>j<n. URL_KV ?w2 (tested (candidate w 0) ?w2 j) \<noteq> None"
    using Suc.prems by (simp add: tested_step [of _ w _ s])
  have "getUniqueSlug_loop (Suc n) c s w = getUniqueSlug_loop n c (candidate w 0) ?w2"
    using here assms by (auto simp: URL_KV_get_def generateSlug_eq)
  also have "\<dots> =
      (Inl RetriesExhausted,
       ?w2\<lparr>Math_random := (\<lambda>i. Math_random ?w2 (i + 6 * n)),
           calls := calls ?w2 @ map (\<lambda>j. KvGet LinkStore (tested (candidate w 0) ?w2 j)) [0..<n]\<rparr>)"
    by (rule Suc.IH [OF rest])
  also have "\<dots> =
      (Inl RetriesExhausted,
       w\<lparr>Math_random := (\<lambda>i. Math_random w (i + 6 * Suc n)),
         calls := calls w @ map (\<lambda>j. KvGet LinkStore (tested s w j)) [0..<Suc n]\<rparr>)"
  proof -
    have ts: "\<And>j. tested (candidate w 0) ?w2 j = tested s w (Suc j)"
      by (rule tested_step) simp
    have cl: "map (\<lambda>j. KvGet LinkStore (tested s w j)) [0..<Suc n] =
              KvGet LinkStore s # map (\<lambda>j. KvGet LinkStore (tested s w (Suc j))) [0..<n]"
      by (simp add: map_upt_Suc tested_def del: upt_Suc)
    show ?thesis
      unfolding ts cl by (simp add: ac_simps)
  qed
  finally show ?case .
qed

lemma loop_found:
  assumes "\<not> given c"
  shows "k < n \<Longrightarrow> (\<forall>j<k. URL_KV w (tested s w j) \<noteq> None) \<Longrightarrow>
         URL_KV w (tested s w k) = None \<Longrightarrow>
         getUniqueSlug_loop n c s w =
           (Inr (tested s w k),
            w\<lparr>Math_random := (\<lambda>i. Math_random w (i + 6 * k)),
              calls := calls w @ map (\<lambda>j. KvGet LinkStore (tested s w j)) [0..<Suc k]\<rparr>)"
proof (induction n arbitrary: s w k)
  case 0
  then show ?case by simp
next
  case (Suc n)
  show ?case
  proof (cases k)
    case 0
    with Suc.prems have "URL_KV w s = None"
      by (simp add: tested_def)
    then show ?thesis
      using 0 by (simp add: URL_KV_get_def tested_def)
  next
    case (Suc k')
    let ?w2 = "w\<lparr>calls := calls w @ [KvGet LinkStore s],
                 Math_random := (\<lambda>i. Math_random w (i + 6))\<rparr>"
    from Suc.prems Suc have here: "URL_KV w s \<noteq> None"
      by (auto simp: tested_def dest: spec [of _ 0])
    have k': "k' < n"
      using Suc.prems Suc by simp
    have before: "\<forall>j<k'. URL_KV ?w2 (tested (candidate w 0) ?w2 j) \<noteq> None"
      using Suc.prems Suc by (simp add: tested_step [of _ w _ s])
    have free: "URL_KV ?w2 (tested (candidate w 0) ?w2 k') = None"
      using Suc.prems Suc by (simp add: tested_step [of _ w _ s])
    have "getUniqueSlug_loop (Suc n) c s w = getUniqueSlug_loop n c (candidate w 0) ?w2"
      using here assms by (auto simp: URL_KV_get_def generateSlug_eq)
    also have "\<dots> =
        (Inr (tested (candidate w 0) ?w2 k'),
         ?w2\<lparr>Math_random := (\<lambda>i. Math_random ?w2 (i + 6 * k')),
             calls := calls ?w2 @
               map (\<lambda>j. KvGet LinkStore (tested (candidate w 0) ?w2 j)) [0..<Suc k']\<rparr>)"
      by (rule Suc.IH [OF k' before free])
    also have "\<dots> =
        (Inr (tested s w k),
         w\<lparr>Math_random := (\<lambda>i. Math_random w (i + 6 * k)),
           calls := calls w @ map (\<lambda>j. KvGet LinkStore (tested s w j)) [0..<Suc k]\<rparr>)"
    proof -
      have ts: "\<And>j. tested (candidate w 0) ?w2 j = tested s w (Suc j)"
        by (rule tested_step) simp
      have cl: "map (\<lambda>j. KvGet LinkStore (tested s w j)) [0..<Suc (Suc k')] =
                KvGet LinkStore s #
                map (\<lambda>j. KvGet LinkStore (tested s w (Suc j))) [0..<Suc k']"
        by (simp add: map_upt_Suc [of _ "Suc k'"] tested_def del: upt_Suc)
      show ?thesis
        unfolding Suc ts cl by (simp add: ac_simps)
    qed
    finally show ?thesis .
  qed
qed

lemma loop_given_cong:
  "given c = given c' \<Longrightarrow> getUniqueSlug_loop n c s w = getUniqueSlug_loop n c' s w"
  by (induction n arbitrary: s w) (auto split: prod.splits option.splits)

lemma getUniqueSlug_custom_free:
  "c \<noteq> [] \<Longrightarrow> URL_KV w c = None \<Longrightarrow>
   getUniqueSlug (Some c) (Suc n) w = (Inr c, w\<lparr>calls := calls w @ [KvGet LinkStore c]\<rparr>)"
  by (simp add: getUniqueSlug_def URL_KV_get_def)

lemma getUniqueSlug_custom_taken:
  "c \<noteq> [] \<Longrightarrow> URL_KV w c = Some e \<Longrightarrow>
   getUniqueSlug (Some c) (Suc n) w =
     (Inl CustomSlugExists, w\<lparr>calls := calls w @ [KvGet LinkStore c]\<rparr>)"
  by (simp add: getUniqueSlug_def URL_KV_get_def given_def)

lemma getUniqueSlug_not_given:
  "\<not> given c \<Longrightarrow>
   getUniqueSlug c n w =
     getUniqueSlug_loop n c (candidate w 0) (w\<lparr>Math_random := (\<lambda>i. Math_random w (i + 6))\<rparr>)"
  by (cases c) (simp_all add: getUniqueSlug_def generateSlug_eq given_def)

lemma getUniqueSlug_found:
  assumes "\<not> given c" "k < n" "\<forall>j<k. URL_KV w (candidate w j) \<noteq> None"
    and "URL_KV w (candidate w k) = None"
  shows "getUniqueSlug c n w =
           (Inr (candidate w k),
            w\<lparr>Math_random := (\<lambda>i. Math_random w (i + 6 * Suc k)),
              calls := calls w @ map (\<lambda>j. KvGet LinkStore (candidate w j)) [0..<Suc k]\<rparr>)"
proof -
  let ?w0 = "w\<lparr>Math_random := (\<lambda>i. Math_random w (i + 6))\<rparr>"
  have ts: "\<And>j. tested (candidate w 0) ?w0 j = candidate w j"
    using tested_step [of ?w0 w _ "[]"] by (simp add: tested_def)
  have "getUniqueSlug_loop n c (candidate w 0) ?w0 =
          (Inr (tested (candidate w 0) ?w0 k),
           ?w0\<lparr>Math_random := (\<lambda>i. Math_random ?w0 (i + 6 * k)),
               calls := calls ?w0 @
                 map (\<lambda>j. KvGet LinkStore (tested (candidate w 0) ?w0 j)) [0..<Suc k]\<rparr>)"
    using assms by (intro loop_found) (simp_all add: ts)
  then show ?thesis
    using assms(1) by (simp add: getUniqueSlug_not_given ts ac_simps)
qed

lemma getUniqueSlug_exhausted:
  assumes "\<not> given c" "\<forall>j<n. URL_KV w (candidate w j) \<noteq> None"
  shows "getUniqueSlug c n w =
           (Inl RetriesExhausted,
            w\<lparr>Math_random := (\<lambda>i. Math_random w (i + 6 * Suc n)),
              calls := calls w @ map (\<lambda>j. KvGet LinkStore (candidate w j)) [0..<n]\<rparr>)"
proof -
  let ?w0 = "w\<lparr>Math_random := (\<lambda>i. Math_random w (i + 6))\<rparr>"
  have ts: "\<And>j. tested (candidate w 0) ?w0 j = candidate w j"
    using tested_step [of ?w0 w _ "[]"] by (simp add: tested_def)
  have "getUniqueSlug_loop n c (candidate w 0) ?w0 =
          (Inl RetriesExhausted,
           ?w0\<lparr>Math_random := (\<lambda>i. Math_random ?w0 (i + 6 * n)),
               calls := calls ?w0 @
                 map (\<lambda>j. KvGet LinkStore (tested (candidate w 0) ?w0 j)) [0..<n]\<rparr>)"
    using assms by (intro loop_exhausted) (simp_all add: ts)
  then show ?thesis
    using assms(1) by (simp add: getUniqueSlug_not_given ts ac_simps)
qed

lemma shorten_valid:
  assumes "validateApiKey P r w \<noteq> None" "body r = JsonValue (Some (JString u)) c"
    and "startsWith u ''http''"
  shows "shorten P r w =
           (case getUniqueSlug c 5 w of
              (Inl e, w1) \<Rightarrow> (jsonResponse (Error ''Server Error'') 500, w1)
            | (Inr s, w1) \<Rightarrow>
                (jsonResponse (Shortened (origin r @ ''/'' @ s) s) 200,
                 URL_KV_put s \<lparr>originalUrl = u, slug = s, created = Date_now w1\<rparr> w1))"
proof -
  have "u \<noteq> []"
    using assms(3) by (auto simp: startsWith_def)
  then show ?thesis
    using assms by (auto simp: shorten_def Let_def split: prod.splits sum.splits)
qed

lemma shorten_not_given:
  assumes "validateApiKey P r w \<noteq> None" "body r = JsonValue (Some (JString u)) c"
    and "startsWith u ''http''" "\<not> given c"
  shows "(\<exists>k<5. URL_KV w (candidate w k) = None \<and>
            (\<forall>j<k. URL_KV w (candidate w j) \<noteq> None) \<and>
            fst (shorten P r w) =
              jsonResponse (Shortened (origin r @ ''/'' @ candidate w k) (candidate w k)) 200 \<and>
            URL_KV (snd (shorten P r w)) =
              (URL_KV w)(candidate w k \<mapsto>
                 \<lparr>originalUrl = u, slug = candidate w k, created = Date_now w\<rparr>) \<and>
            LINK_CLICKS_KV (snd (shorten P r w)) = LINK_CLICKS_KV w \<and>
            calls (snd (shorten P r w)) =
              calls w @ map (\<lambda>j. KvGet LinkStore (candidate w j)) [0..<Suc k] @
              [KvPut LinkStore (candidate w k)]) \<or>
         ((\<forall>k<5. URL_KV w (candidate w k) \<noteq> None) \<and>
            fst (shorten P r w) = jsonResponse (Error ''Server Error'') 500 \<and>
            URL_KV (snd (shorten P r w)) = URL_KV w \<and>
            LINK_CLICKS_KV (snd (shorten P r w)) = LINK_CLICKS_KV w \<and>
            calls (snd (shorten P r w)) =
              calls w @ map (\<lambda>j. KvGet LinkStore (candidate w j)) [0..<5])"
proof (cases "\<exists>k<5. URL_KV w (candidate w k) = None")
  case True
  then have "\<exists>k. k < 5 \<and> URL_KV w (candidate w k) = None"
    by blast
  then obtain k where k: "k < 5 \<and> URL_KV w (candidate w k) = None"
    and least: "\<forall>j<k. \<not> (j < 5 \<and> URL_KV w (candidate w j) = None)"
    unfolding exists_least_iff [of "\<lambda>k. k < 5 \<and> URL_KV w (candidate w k) = None"] by blast
  then have before: "\<forall>j<k. URL_KV w (candidate w j) \<noteq> None"
    by auto
  have "getUniqueSlug c 5 w =
          (Inr (candidate w k),
           w\<lparr>Math_random := (\<lambda>i. Math_random w (i + 6 * Suc k)),
             calls := calls w @ map (\<lambda>j. KvGet LinkStore (candidate w j)) [0..<Suc k]\<rparr>)"
    using assms(4) k before by (intro getUniqueSlug_found) simp_all
  then have "shorten P r w =
      (jsonResponse (Shortened (origin r @ ''/'' @ candidate w k) (candidate w k)) 200,
       URL_KV_put (candidate w k)
         \<lparr>originalUrl = u, slug = candidate w k, created = Date_now w\<rparr>
         (w\<lparr>Math_random := (\<lambda>i. Math_random w (i + 6 * Suc k)),
            calls := calls w @ map (\<lambda>j. KvGet LinkStore (candidate w j)) [0..<Suc k]\<rparr>))"
    by (simp add: shorten_valid [OF assms(1-3)])
  then show ?thesis
    using k before by (intro disjI1 exI [of _ k]) (simp add: URL_KV_put_def)
next
  case False
  then have all: "\<forall>j<5. URL_KV w (candidate w j) \<noteq> None"
    by simp
  have "getUniqueSlug c 5 w =
          (Inl RetriesExhausted,
           w\<lparr>Math_random := (\<lambda>i. Math_random w (i + 6 * Suc 5)),
             calls := calls w @ map (\<lambda>j. KvGet LinkStore (candidate w j)) [0..<5]\<rparr>)"
    using assms(4) all by (rule getUniqueSlug_exhausted)
  then have "shorten P r w =
      (jsonResponse (Error ''Server Error'') 500,
       w\<lparr>Math_random := (\<lambda>i. Math_random w (i + 6 * Suc 5)),
         calls := calls w @ map (\<lambda>j. KvGet LinkStore (candidate w j)) [0..<5]\<rparr>)"
    by (simp add: shorten_valid [OF assms(1-3)])
  then show ?thesis
    using all by (intro disjI2) simp
qed

subsection \<open>Authorization\<close>

lemma validateApiKey_SomeD:
  assumes "validateApiKey P r w = Some v"
  shows "\<exists>h sv. authorization r = Some h \<and> startsWith h ''Bearer '' \<and>
           secretValue (API_KEYS w) = Some (Some sv) \<and> JSON_parse P sv = Some v \<and>
           value_includes v (drop 7 h) = Some True"
  using assms
  by (auto simp: validateApiKey_def Let_def split: option.splits if_splits bool.splits)

lemma validateApiKey_no_header:
  "authorization r = None \<Longrightarrow> validateApiKey P r w = None"
  by (simp add: validateApiKey_def)

lemma validateApiKey_not_bearer:
  "authorization r = Some h \<Longrightarrow> \<not> startsWith h ''Bearer '' \<Longrightarrow> validateApiKey P r w = None"
  by (simp add: validateApiKey_def)

lemma validateApiKey_array:
  assumes "authorization r = Some h" "startsWith h ''Bearer ''"
    and "secretValue (API_KEYS w) = Some (Some sv)" "sv \<noteq> []"
    and "JSON_parse P sv = Some (JArray xs)"
  shows "validateApiKey P r w = (if JString (drop 7 h) \<in> set xs then Some (JArray xs) else None)"
proof -
  have "h \<noteq> []"
    using assms(2) by (auto simp: startsWith_def)
  then show ?thesis
    using assms by (auto simp: validateApiKey_def Let_def)
qed

text \<open>
  A secret that parses to a JSON string authorizes every token that occurs in it.
\<close>

lemma validateApiKey_string:
  assumes "authorization r = Some h" "startsWith h ''Bearer ''"
    and "secretValue (API_KEYS w) = Some (Some sv)" "sv \<noteq> []"
    and "JSON_parse P sv = Some (JString s)" "String_includes s (drop 7 h)"
  shows "validateApiKey P r w = Some (JString s)"
proof -
  have "h \<noteq> []"
    using assms(2) by (auto simp: startsWith_def)
  then show ?thesis
    using assms by (simp add: validateApiKey_def Let_def)
qed

lemma sample_authorized:
  \<open>validateApiKey samplePlatform (sampleRequest m path (Some ''Bearer k1'') b) sampleWorld =
   Some (JArray [JString ''k1'', JString ''k2''])\<close>
  by (simp add: validateApiKey_def sampleRequest_def samplePlatform_def sampleParse_def
      sampleWorld_def startsWith_def)

lemma validateApiKey_body [simp]:
  "validateApiKey P (r\<lparr>body := b\<rparr>) w = validateApiKey P r w"
  by (simp add: validateApiKey_def)

lemma getUniqueSlug_empty:
  "getUniqueSlug (Some []) n w = getUniqueSlug None n w"
  by (simp add: getUniqueSlug_not_given given_def loop_given_cong [of "Some []" None])

lemma shorten_rejected:
  assumes "validateApiKey P r w = None \<or>
           \<not> (\<exists>u c. body r = JsonValue (Some (JString u)) c \<and> startsWith u ''http'')"
  shows "snd (shorten P r w) = w \<and>
         (\<forall>short s. payload (fst (shorten P r w)) \<noteq> Shortened short s)"
  using assms
  by (auto simp: shorten_def unauthorized_def jsonResponse_def
      split: option.splits body.splits json.splits)

subsection \<open>Redirect, shorten with a custom slug, and the unauthorized answer\<close>

lemma redirect_stored:
  assumes "pathname g = ''/'' @ s" "s \<noteq> []" "URL_KV w s = Some stored"
  shows "fst (redirect P g w) =
           (if URL_canParse P (originalUrl stored)
            then \<lparr>status = 301, payload = Redirect (originalUrl stored)\<rparr>
            else \<lparr>status = 500, payload = Text ''server error''\<rparr>)"
  using assms by (simp add: redirect_def startsWith_def URL_KV_get_def Let_def)

lemma redirect_missing:
  assumes "pathname g = ''/'' @ s" "s \<noteq> []" "URL_KV w s = None"
  shows "redirect P g w =
           (\<lparr>status = 404, payload = Text ''not found''\<rparr>,
            w\<lparr>calls := calls w @ [KvGet LinkStore s]\<rparr>)"
  using assms by (simp add: redirect_def startsWith_def URL_KV_get_def Let_def)

lemma shorten_custom_free:
  assumes "validateApiKey P r w \<noteq> None"
    and "body r = JsonValue (Some (JString u)) (Some c)" "startsWith u ''http''"
    and "c \<noteq> []" "URL_KV w c = None"
  shows "shorten P r w =
           (jsonResponse (Shortened (origin r @ ''/'' @ c) c) 200,
            URL_KV_put c \<lparr>originalUrl = u, slug = c, created = Date_now w\<rparr>
              (w\<lparr>calls := calls w @ [KvGet LinkStore c]\<rparr>))"
proof -
  have "getUniqueSlug (Some c) 5 w = (Inr c, w\<lparr>calls := calls w @ [KvGet LinkStore c]\<rparr>)"
    using getUniqueSlug_custom_free [OF assms(4,5), of 4] by (simp add: eval_nat_numeral)
  then show ?thesis
    by (simp add: shorten_valid [OF assms(1-3)])
qed

lemma startsWith_append: "startsWith s p \<longleftrightarrow> (\<exists>t. s = p @ t)"
  unfolding startsWith_def by (metis append_eq_conv_conj append_take_drop_id)

text \<open>
  A plain slug has no slash, and the path of a slug with no slash is taken by the info
  and list routes only when the slug is \<^verbatim>\<open>links\<close>. Every generated slug is plain.
\<close>

lemma slugChars_no_slash: "set c \<subseteq> set slugChars \<Longrightarrow> CHR ''/'' \<notin> set c"
  by (auto simp: slugChars_def chars_def)

lemma chars_slugChars: "set chars \<subseteq> set slugChars"
  by (auto simp: slugChars_def)

lemma no_slash_path:
  assumes "CHR ''/'' \<notin> set c" "c \<noteq> ''links''"
  shows "\<not> reservedPath (''/'' @ c)" "\<not> startsWith (''/'' @ c) ''/api/''"
  using assms by (auto simp: reservedPath_def startsWith_append)

lemma unauthorized_401:
  assumes "validateApiKey P r w = None"
    and "httpMethod r = ''POST'' \<and> pathname r = ''/api/shorten'' \<or>
         httpMethod r = ''DELETE'' \<and> pathname r = ''/api/delete'' \<or>
         httpMethod r = ''GET'' \<and>
           pathname r \<in> {''/api/links'', ''/api/links/'', ''/links'', ''/links/''} \<or>
         httpMethod r = ''GET'' \<and> startsWith (pathname r) ''/api/links/'' \<and>
           length (pathname r) > length ''/api/links/'' \<and>
           decodeURIComponent P (drop (length ''/api/links/'') (pathname r)) \<noteq> None \<or>
         httpMethod r = ''GET'' \<and> startsWith (pathname r) ''/links/'' \<and>
           length (pathname r) > length ''/links/'' \<and>
           decodeURIComponent P (drop (length ''/links/'') (pathname r)) \<noteq> None"
  shows "fetch P r w = (unauthorized, w)"
proof -
  consider
    (shorten) "httpMethod r = ''POST''" "pathname r = ''/api/shorten''"
  | (delete) "httpMethod r = ''DELETE''" "pathname r = ''/api/delete''"
  | (list) "httpMethod r = ''GET''"
      "pathname r \<in> {''/api/links'', ''/api/links/'', ''/links'', ''/links/''}"
  | (info_api) "httpMethod r = ''GET''" "startsWith (pathname r) ''/api/links/''"
      "length (pathname r) > length ''/api/links/''"
      "decodeURIComponent P (drop (length ''/api/links/'') (pathname r)) \<noteq> None"
  | (info_alias) "httpMethod r = ''GET''" "startsWith (pathname r) ''/links/''"
      "\<not> startsWith (pathname r) ''/api/links/''"
      "length (pathname r) > length ''/links/''"
      "decodeURIComponent P (drop (length ''/links/'') (pathname r)) \<noteq> None"
    using assms(2) by (auto simp: startsWith_append)
  then show ?thesis
  proof cases
    case shorten
    then show ?thesis
      using assms(1) by (simp add: fetch_shorten shorten_def)
  next
    case delete
    then show ?thesis
      using assms(1) by (simp add: fetch_deleteLink deleteLink_def)
  next
    case list
    then show ?thesis
      using assms(1) by (simp add: fetch_listLinks listLinks_def)
  next
    case info_api
    then have "fetch P r w = linkInfo P r w"
      by (intro fetch_linkInfo) simp_all
    then show ?thesis
      using assms(1) info_api by (auto simp: linkInfo_def Let_def)
  next
    case info_alias
    then have "fetch P r w = linkInfo P r w"
      by (intro fetch_linkInfo) simp_all
    then show ?thesis
      using assms(1) info_alias by (auto simp: linkInfo_def Let_def)
  qed
qed

text \<open>
  On the info route a path that does not decode is answered 500, with a key or without.
\<close>

lemma linkInfo_undecodable:
  assumes "httpMethod r = ''GET''" "startsWith (pathname r) ''/api/links/''"
    and "length (pathname r) > length ''/api/links/''"
    and "decodeURIComponent P (drop (length ''/api/links/'') (pathname r)) = None"
  shows "fetch P r w = (\<lparr>status = 500, payload = Text ''server error''\<rparr>, w)"
proof -
  have "fetch P r w = linkInfo P r w"
    using assms(1-3) by (intro fetch_linkInfo) blast+
  then show ?thesis
    using assms(2,4) by (simp add: linkInfo_def)
qed

lemma linkInfo_status: "status (fst (linkInfo P g w)) \<in> {200, 401, 404, 500}"
  by (auto simp: linkInfo_def Let_def unauthorized_def jsonResponse_def
      split: option.splits prod.splits)

lemma listLinks_status: "status (fst (listLinks P g w)) \<in> {200, 401, 501}"
  by (auto simp: listLinks_def Let_def unauthorized_def jsonResponse_def
      split: option.splits prod.splits)

lemma reserved_not_301:
  assumes "httpMethod g = ''GET''" "reservedPath (pathname g)"
  shows "status (fst (fetch P g w)) \<noteq> 301"
proof -
  consider
    (info) "(startsWith (pathname g) ''/api/links/'' \<and> length (pathname g) > length ''/api/links/'') \<or>
     (startsWith (pathname g) ''/links/'' \<and> length (pathname g) > length ''/links/'')"
  | (list) "pathname g \<in> {''/api/links'', ''/api/links/'', ''/links'', ''/links/''}"
    using assms(2) unfolding reservedPath_def by blast
  then show ?thesis
  proof cases
    case info
    then have "fetch P g w = linkInfo P g w"
      using assms(1) by (intro fetch_linkInfo)
    then show ?thesis
      using linkInfo_status [of P g w] by auto
  next
    case list
    then have "fetch P g w = listLinks P g w"
      using assms(1) by (intro fetch_listLinks)
    then show ?thesis
      using listLinks_status [of P g w] by auto
  qed
qed

subsection \<open>The click counter\<close>

lemma digitChar_digit:
  assumes "d < 10"
  shows "isDigit (digitChar d)" and "digitValue (digitChar d) = d"
  using assms by (simp_all add: isDigit_def digitValue_def digitChar_def)

lemma leadingWhiteSpace_digit:
  assumes "isDigit c"
  shows "leadingWhiteSpace (c # s) = None"
proof -
  have "\<forall>p\<in>set whiteSpace. p \<noteq> [] \<and> \<not> isDigit (hd p)"
    by (simp add: whiteSpace_def isDigit_def)
  moreover have "startsWith (c # s) p \<Longrightarrow> p \<noteq> [] \<Longrightarrow> hd p = c" for p
    by (cases p) (simp_all add: startsWith_def)
  ultimately have "\<forall>p\<in>set whiteSpace. \<not> startsWith (c # s) p"
    using assms by metis
  then show ?thesis
    by (simp add: leadingWhiteSpace_def find_None_iff)
qed

lemma String_nat_digits:
  "String_nat n \<noteq> [] \<and> (\<forall>c\<in>set (String_nat n). isDigit c) \<and>
   foldl (\<lambda>a c. 10 * a + digitValue c) 0 (String_nat n) = n"
proof (induction n rule: String_nat.induct)
  case (1 n)
  show ?case
  proof (cases "n < 10")
    case True
    then show ?thesis
      by (subst (1 2 3) String_nat.simps) (simp add: digitChar_digit)
  next
    case False
    then show ?thesis
      using 1 by (subst (1 2 3) String_nat.simps) (simp add: digitChar_digit)
  qed
qed

lemma parseInt10_String_nat: "parseInt10 (String_nat n) = Some (int n)"
proof -
  obtain c s where cs: "String_nat n = c # s"
    using String_nat_digits [of n] by (cases "String_nat n") auto
  have dig: "\<forall>x\<in>set (c # s). isDigit x"
    using String_nat_digits [of n] cs by simp
  then have c: "isDigit c"
    by simp
  have trim: "trimStart (c # s) = c # s"
    by (subst trimStart.simps) (simp add: leadingWhiteSpace_digit [OF c])
  have sign: "c \<noteq> CHR ''-''" "c \<noteq> CHR ''+''"
    using c by (auto simp: isDigit_def)
  have tw: "takeWhile isDigit (c # s) = c # s"
    using dig by (simp add: takeWhile_eq_all_conv)
  have val: "foldl (\<lambda>a c. 10 * a + digitValue c) 0 (c # s) = n"
    using String_nat_digits [of n] cs by simp
  show ?thesis
    unfolding cs parseInt10_def Let_def trim using sign tw val by simp
qed

lemma String_nat_0: "String_nat 0 = ''0''"
  by (simp add: String_nat.simps digitChar_def char_of_eq_iff)

lemma parseInt10_zero: "parseInt10 ''0'' = Some 0"
  using parseInt10_String_nat [of 0] by (simp add: String_nat_0)

lemma String_nat_1: "String_nat (Suc 0) = ''1''"
  by (simp add: String_nat.simps digitChar_def char_of_eq_iff)

lemma String_int_nat: "String_int (int n) = String_nat n"
  by (simp add: String_int_def)


lemma leadingWhiteSpace_minus: "leadingWhiteSpace (CHR ''-'' # s) = None"
  by (simp add: leadingWhiteSpace_def find_None_iff whiteSpace_def startsWith_def)

lemma parseInt10_String_int: "parseInt10 (String_int i) = Some i"
proof (cases "i < 0")
  case False
  then show ?thesis
    using parseInt10_String_nat [of "nat i"] by (simp add: String_int_def)
next
  case True
  let ?d = "String_nat (nat (- i))"
  have dig: "?d \<noteq> []" "\<forall>c\<in>set ?d. isDigit c"
    "foldl (\<lambda>a c. 10 * a + digitValue c) 0 ?d = nat (- i)"
    using String_nat_digits [of "nat (- i)"] by simp_all
  have trim: "trimStart (CHR ''-'' # ?d) = CHR ''-'' # ?d"
    by (subst trimStart.simps) (simp add: leadingWhiteSpace_minus)
  have tw: "takeWhile isDigit ?d = ?d"
    using dig(2) by (simp add: takeWhile_eq_all_conv)
  show ?thesis
    using True dig(1,3) by (simp add: String_int_def parseInt10_def Let_def trim tw)
qed

lemma getClickCount_eq:
  "fst (getClickCount s w) =
     (case parseInt10 (case LINK_CLICKS_KV w s of None \<Rightarrow> ''0'' | Some r \<Rightarrow> r) of
        None \<Rightarrow> 0 | Some n \<Rightarrow> n)"
  by (simp add: getClickCount_def LINK_CLICKS_KV_get_def split: option.splits)

lemma incrementClickCount_eq:
  "incrementClickCount s w =
     w\<lparr>calls := calls w @ [KvGet ClickStore s, KvPut ClickStore s],
       LINK_CLICKS_KV := (LINK_CLICKS_KV w)(s \<mapsto> String_int (fst (getClickCount s w) + 1))\<rparr>"
  by (simp add: incrementClickCount_def getClickCount_eq LINK_CLICKS_KV_get_def
      LINK_CLICKS_KV_put_def Let_def)

lemma getClickCount_missing: "LINK_CLICKS_KV w s = None \<Longrightarrow> fst (getClickCount s w) = 0"
  by (simp add: getClickCount_eq parseInt10_zero)

lemma String_int_1: "String_int 1 = ''1''"
  using String_int_nat [of 1] by (simp add: String_nat_1)

subsection \<open>Facts about the concrete inputs\<close>

lemma candidate_sample: "candidate sampleWorld k = ''aaaaaa''"
  by (simp add: candidate_def pick_def binary64_0 chars_def sampleWorld_def upt_conv_Cons)

lemma random_sample:
  "\<forall>i. isBinary64 (Math_random sampleWorld i) \<and>
       0 \<le> Math_random sampleWorld i \<and> Math_random sampleWorld i < 1"
  by (simp add: sampleWorld_def isBinary64_def binary64_0)

lemma candidate_rounding: "candidate roundingWorld k = ''qqqqqq''"
  using pick_rounds_up by (simp add: candidate_def roundingWorld_def upt_conv_Cons)

lemma random_rounding:
  "\<forall>i. isBinary64 (Math_random roundingWorld i) \<and>
       0 \<le> Math_random roundingWorld i \<and> Math_random roundingWorld i < 1"
  using isBinary64_rounds_up by (simp add: roundingWorld_def)

lemma rounding_authorized:
  \<open>validateApiKey samplePlatform (sampleRequest m path (Some ''Bearer k1'') b) roundingWorld =
   Some (JArray [JString ''k1'', JString ''k2''])\<close>
  by (simp add: validateApiKey_def sampleRequest_def samplePlatform_def sampleParse_def
      sampleWorld_def roundingWorld_def startsWith_def)

lemma sample_generated:
  "fst (fetch samplePlatform
     (sampleRequest ''POST'' ''/api/shorten'' (Some ''Bearer k1'')
        (JsonValue (Some (JString ''https://b.com'')) None)) sampleWorld) =
   jsonResponse (Shortened ''https://sho.rt/aaaaaa'' ''aaaaaa'') 200"
proof -
  let ?r = "sampleRequest ''POST'' ''/api/shorten'' (Some ''Bearer k1'')
              (JsonValue (Some (JString ''https://b.com'')) None)"
  have auth: "validateApiKey samplePlatform ?r sampleWorld \<noteq> None"
    by (simp add: sample_authorized)
  have req: "body ?r = JsonValue (Some (JString ''https://b.com'')) None"
    "origin ?r = ''https://sho.rt''"
    by (simp_all add: sampleRequest_def)
  have url: "startsWith ''https://b.com'' ''http''"
    by (simp add: startsWith_def)
  have none: "\<not> given None"
    by (simp add: given_def)
  have free: "URL_KV sampleWorld ''aaaaaa'' = None"
    by (simp add: sampleWorld_def)
  then have "\<not> (\<forall>k<5. URL_KV sampleWorld (candidate sampleWorld k) \<noteq> None)"
    by (auto simp: candidate_sample intro: exI [of _ "0::nat"])
  with shorten_not_given [OF auth req(1) url none]
  have "fst (shorten samplePlatform ?r sampleWorld) =
          jsonResponse (Shortened ''https://sho.rt/aaaaaa'' ''aaaaaa'') 200"
    unfolding candidate_sample req(2) by auto
  moreover have "fetch samplePlatform ?r sampleWorld = shorten samplePlatform ?r sampleWorld"
    by (rule fetch_shorten) (simp_all add: sampleRequest_def)
  ultimately show ?thesis
    by simp
qed

text \<open>
  The \<^verbatim>\<open>url\<close> of a shorten request is only tested for its first four characters. The
  url \<^verbatim>\<open>http\<close> is stored, and the redirect of its slug is answered 500, since
  \<^verbatim>\<open>Response.redirect\<close> does not accept it.
\<close>

lemma shorten_unparsable_url_not_redirected:
  "startsWith ''http'' ''http'' \<and> \<not> URL_canParse samplePlatform ''http'' \<and>
   fst (fetch samplePlatform
     (sampleRequest ''POST'' ''/api/shorten'' (Some ''Bearer k1'')
        (JsonValue (Some (JString ''http'')) (Some ''example''))) sampleWorld) =
   jsonResponse (Shortened ''https://sho.rt/example'' ''example'') 200 \<and>
   fst (fetch samplePlatform (sampleRequest ''GET'' ''/example'' None Unparsable)
     (snd (fetch samplePlatform
        (sampleRequest ''POST'' ''/api/shorten'' (Some ''Bearer k1'')
           (JsonValue (Some (JString ''http'')) (Some ''example''))) sampleWorld))) =
   \<lparr>status = 500, payload = Text ''server error''\<rparr>"
proof -
  let ?r = "sampleRequest ''POST'' ''/api/shorten'' (Some ''Bearer k1'')
              (JsonValue (Some (JString ''http'')) (Some ''example''))"
  let ?g = "sampleRequest ''GET'' ''/example'' None Unparsable"
  let ?w1 = "URL_KV_put ''example''
               \<lparr>originalUrl = ''http'', slug = ''example'', created = Date_now sampleWorld\<rparr>
               (sampleWorld\<lparr>calls := calls sampleWorld @ [KvGet LinkStore ''example'']\<rparr>)"
  have free: "URL_KV sampleWorld ''example'' = None"
    by (simp add: sampleWorld_def)
  have auth: "validateApiKey samplePlatform ?r sampleWorld \<noteq> None"
    by (simp add: sample_authorized)
  have req: "httpMethod ?r = ''POST''" "pathname ?r = ''/api/shorten''"
    "body ?r = JsonValue (Some (JString ''http'')) (Some ''example'')"
    "origin ?r = ''https://sho.rt''"
    by (simp_all add: sampleRequest_def)
  have url: "startsWith ''http'' ''http''"
    by (simp add: startsWith_def)
  have bad: "\<not> URL_canParse samplePlatform ''http''"
    by (simp add: samplePlatform_def)
  have first: "fetch samplePlatform ?r sampleWorld =
      (jsonResponse (Shortened ''https://sho.rt/example'' ''example'') 200, ?w1)"
    using shorten_custom_free [OF auth req(3) url _ free] req(1,2,4) by (simp add: fetch_shorten)
  have get: "httpMethod ?g = ''GET''" "pathname ?g = ''/'' @ ''example''"
    by (simp_all add: sampleRequest_def)
  have stored: "URL_KV ?w1 ''example'' =
      Some \<lparr>originalUrl = ''http'', slug = ''example'', created = Date_now sampleWorld\<rparr>"
    by (simp add: URL_KV_put_def)
  have "fetch samplePlatform ?g ?w1 = redirect samplePlatform ?g ?w1"
    using get by (intro fetch_redirect [of ?g "''example''"])
      (simp_all add: reservedPath_def startsWith_def)
  then have "fst (fetch samplePlatform ?g ?w1) = \<lparr>status = 500, payload = Text ''server error''\<rparr>"
    using redirect_stored [OF get(2) _ stored, of samplePlatform] bad by simp
  then show ?thesis
    using url bad by (simp add: first)
qed

section \<open>The claims\<close>

text \<open>
  C1. Authorization is to succeed only when the header is of the Bearer scheme and the
  token is an element of the JSON array parsed from the secret; a secret that does not
  parse as such an array is to give unauthorized. The code casts the parsed secret to
  an array without testing it. When the secret parses to a JSON string, \<^verbatim>\<open>includes\<close> is
  the substring test of strings: with the secret \<^verbatim>\<open>"my-secret-key"\<close> the header
  \<^verbatim>\<open>Bearer key\<close> is authorized, though the secret is no array and \<^verbatim>\<open>key\<close> no element of
  it.
\<close>

theorem validateApiKey_string_secret:
  \<open>validateApiKey samplePlatform
     (sampleRequest ''POST'' ''/api/shorten'' (Some ''Bearer key'') Unparsable)
     (sampleWorld\<lparr>API_KEYS := KeysString ''"my-secret-key"''\<rparr>) =
   Some (JString ''my-secret-key'')\<close>
  by (simp add: validateApiKey_def sampleRequest_def samplePlatform_def sampleParse_def
      startsWith_def)

text \<open>
  C2, as stated, fails. A shorten request with the fresh slug \<^verbatim>\<open>links\<close> is answered 200
  with the short URL \<^verbatim>\<open>https://sho.rt/links\<close>, and the GET of \<^verbatim>\<open>/links\<close> that follows is
  taken by the list route, which answers 401 to a request without a key: no redirect.
\<close>

theorem shorten_links_slug_not_redirected:
  "URL_KV sampleWorld ''links'' = None \<and>
   fst (fetch samplePlatform
     (sampleRequest ''POST'' ''/api/shorten'' (Some ''Bearer k1'')
        (JsonValue (Some (JString ''https://b.com'')) (Some ''links''))) sampleWorld) =
   jsonResponse (Shortened ''https://sho.rt/links'' ''links'') 200 \<and>
   fst (fetch samplePlatform (sampleRequest ''GET'' ''/links'' None Unparsable)
     (snd (fetch samplePlatform
        (sampleRequest ''POST'' ''/api/shorten'' (Some ''Bearer k1'')
           (JsonValue (Some (JString ''https://b.com'')) (Some ''links''))) sampleWorld))) =
   jsonResponse (Error ''missing or invalid API key'') 401"
proof -
  let ?r = "sampleRequest ''POST'' ''/api/shorten'' (Some ''Bearer k1'')
              (JsonValue (Some (JString ''https://b.com'')) (Some ''links''))"
  let ?g = "sampleRequest ''GET'' ''/links'' None Unparsable"
  have free: "URL_KV sampleWorld ''links'' = None"
    by (simp add: sampleWorld_def)
  have auth: "validateApiKey samplePlatform ?r sampleWorld \<noteq> None"
    by (simp add: sample_authorized)
  have req: "httpMethod ?r = ''POST''" "pathname ?r = ''/api/shorten''"
    "body ?r = JsonValue (Some (JString ''https://b.com'')) (Some ''links'')"
    "origin ?r = ''https://sho.rt''"
    by (simp_all add: sampleRequest_def)
  have url: "startsWith ''https://b.com'' ''http''"
    by (simp add: startsWith_def)
  have "fetch samplePlatform ?r sampleWorld = shorten samplePlatform ?r sampleWorld"
    using req(1,2) by (rule fetch_shorten)
  then have first: "fst (fetch samplePlatform ?r sampleWorld) =
      jsonResponse (Shortened ''https://sho.rt/links'' ''links'') 200"
    using shorten_custom_free [OF auth req(3) url _ free] by (simp add: req(4))
  have "validateApiKey samplePlatform ?g w = None" for w
    by (rule validateApiKey_no_header) (simp add: sampleRequest_def)
  moreover have "httpMethod ?g = ''GET''" "pathname ?g = ''/links''"
    by (simp_all add: sampleRequest_def)
  ultimately have "fetch samplePlatform ?g w = (unauthorized, w)" for w
    by (intro unauthorized_401) simp_all
  then show ?thesis
    using free first by (simp add: unauthorized_def)
qed

text \<open>
  C2, amended. For every authorized shorten request with a \<^verbatim>\<open>url\<close> starting with
  \<^verbatim>\<open>http\<close> and a custom slug that is not empty and not in the Link Store, the answer is
  200 with the slug and a short URL that is the origin, a slash and the slug. When the
  slug is plain (ASCII letters, digits, hyphen, underscore) and is not \<^verbatim>\<open>links\<close>, and
  \<^verbatim>\<open>Response.redirect\<close> accepts the url, the GET of the slash and the slug that follows
  is answered by a 301 redirect to the url. The plain slugs are those whose path the URL
  parser leaves as it is, so that the \<^verbatim>\<open>pathname\<close> of that GET is the slash and the
  slug; nothing is stated of the redirect of any other slug.
\<close>

theorem shorten_then_redirect:
  assumes "validateApiKey P r w \<noteq> None"
    and "httpMethod r = ''POST''" "pathname r = ''/api/shorten''"
    and "body r = JsonValue (Some (JString u)) (Some c)" "startsWith u ''http''"
    and "c \<noteq> []" "URL_KV w c = None"
  shows "fst (fetch P r w) = jsonResponse (Shortened (origin r @ ''/'' @ c) c) 200 \<and>
         (set c \<subseteq> set slugChars \<and> c \<noteq> ''links'' \<and> URL_canParse P u \<and>
          httpMethod g = ''GET'' \<and> pathname g = ''/'' @ c \<longrightarrow>
          fst (fetch P g (snd (fetch P r w))) = \<lparr>status = 301, payload = Redirect u\<rparr>)"
proof -
  let ?w1 = "URL_KV_put c \<lparr>originalUrl = u, slug = c, created = Date_now w\<rparr>
               (w\<lparr>calls := calls w @ [KvGet LinkStore c]\<rparr>)"
  have first: "fetch P r w = (jsonResponse (Shortened (origin r @ ''/'' @ c) c) 200, ?w1)"
    using shorten_custom_free [OF assms(1,4,5,6,7)] assms(2,3) by (simp add: fetch_shorten)
  have stored: "URL_KV ?w1 c = Some \<lparr>originalUrl = u, slug = c, created = Date_now w\<rparr>"
    by (simp add: URL_KV_put_def)
  have "fst (fetch P g ?w1) = \<lparr>status = 301, payload = Redirect u\<rparr>"
    if plain: "set c \<subseteq> set slugChars" "c \<noteq> ''links''" and ok: "URL_canParse P u"
      and g: "httpMethod g = ''GET''" "pathname g = ''/'' @ c"
  proof -
    have "CHR ''/'' \<notin> set c"
      using plain(1) by (rule slugChars_no_slash)
    then have path: "\<not> reservedPath (''/'' @ c)" "\<not> startsWith (''/'' @ c) ''/api/''"
      using plain(2) by (rule no_slash_path)+
    have "fetch P g ?w1 = redirect P g ?w1"
      using g path assms(6) by (intro fetch_redirect [of g c]) simp_all
    then show ?thesis
      using redirect_stored [OF g(2) assms(6) stored, of P] ok by simp
  qed
  then show ?thesis
    by (simp add: first)
qed

text \<open>C2, amended, on the slug \<^verbatim>\<open>example\<close>.\<close>

theorem shorten_then_redirect_witness:
  "URL_KV sampleWorld ''example'' = None \<and>
   set ''example'' \<subseteq> set slugChars \<and> ''example'' \<noteq> ''links'' \<and>
   URL_canParse samplePlatform ''https://b.com'' \<and>
   fst (fetch samplePlatform
     (sampleRequest ''POST'' ''/api/shorten'' (Some ''Bearer k1'')
        (JsonValue (Some (JString ''https://b.com'')) (Some ''example''))) sampleWorld) =
   jsonResponse (Shortened ''https://sho.rt/example'' ''example'') 200 \<and>
   fst (fetch samplePlatform (sampleRequest ''GET'' ''/example'' None Unparsable)
     (snd (fetch samplePlatform
        (sampleRequest ''POST'' ''/api/shorten'' (Some ''Bearer k1'')
           (JsonValue (Some (JString ''https://b.com'')) (Some ''example''))) sampleWorld))) =
   \<lparr>status = 301, payload = Redirect ''https://b.com''\<rparr>"
proof -
  let ?r = "sampleRequest ''POST'' ''/api/shorten'' (Some ''Bearer k1'')
              (JsonValue (Some (JString ''https://b.com'')) (Some ''example''))"
  let ?g = "sampleRequest ''GET'' ''/example'' None Unparsable"
  have free: "URL_KV sampleWorld ''example'' = None"
    by (simp add: sampleWorld_def)
  have auth: "validateApiKey samplePlatform ?r sampleWorld \<noteq> None"
    by (simp add: sample_authorized)
  have req: "httpMethod ?r = ''POST''" "pathname ?r = ''/api/shorten''"
    "body ?r = JsonValue (Some (JString ''https://b.com'')) (Some ''example'')"
    "origin ?r = ''https://sho.rt''"
    by (simp_all add: sampleRequest_def)
  have get: "httpMethod ?g = ''GET''" "pathname ?g = ''/'' @ ''example''"
    by (simp_all add: sampleRequest_def)
  have url: "startsWith ''https://b.com'' ''http''"
    by (simp add: startsWith_def)
  have plain: "set ''example'' \<subseteq> set slugChars" "''example'' \<noteq> ''links''"
    by (simp_all add: slugChars_def chars_def)
  have ok: "URL_canParse samplePlatform ''https://b.com''"
    by (simp add: samplePlatform_def)
  have ne: "''example'' \<noteq> []"
    by simp
  note inst = shorten_then_redirect [OF auth req(1,2,3) url ne free, of ?g]
  have "fst (fetch samplePlatform ?r sampleWorld) =
          jsonResponse (Shortened ''https://sho.rt/example'' ''example'') 200"
    using inst [THEN conjunct1] by (simp add: req(4))
  moreover have "fst (fetch samplePlatform ?g (snd (fetch samplePlatform ?r sampleWorld))) =
          \<lparr>status = 301, payload = Redirect ''https://b.com''\<rparr>"
    using inst [THEN conjunct2] plain ok get by blast
  ultimately show ?thesis
    using free plain ok by blast
qed

text \<open>
  C3. For every authorized shorten request that supplies a custom slug already in the
  Link Store, the answer is 500 and the world is as before but for one call, the single
  lookup of the slug: no record is written, and the lookup is not repeated. The request
  is one that passes the check of its \<^verbatim>\<open>url\<close>, which comes first (C7 is the other case).
\<close>

theorem shorten_existing_custom_slug:
  assumes "validateApiKey P r w \<noteq> None"
    and "httpMethod r = ''POST''" "pathname r = ''/api/shorten''"
    and "body r = JsonValue (Some (JString u)) (Some c)" "startsWith u ''http''"
    and "c \<noteq> []" "URL_KV w c = Some existing"
  shows "fetch P r w =
           (jsonResponse (Error ''Server Error'') 500,
            w\<lparr>calls := calls w @ [KvGet LinkStore c]\<rparr>)"
proof -
  have "getUniqueSlug (Some c) 5 w =
          (Inl CustomSlugExists, w\<lparr>calls := calls w @ [KvGet LinkStore c]\<rparr>)"
    using getUniqueSlug_custom_taken [OF assms(6,7), of 4] by (simp add: eval_nat_numeral)
  then have "shorten P r w =
      (jsonResponse (Error ''Server Error'') 500, w\<lparr>calls := calls w @ [KvGet LinkStore c]\<rparr>)"
    by (simp add: shorten_valid [OF assms(1,4,5)])
  then show ?thesis
    using assms(2,3) by (simp add: fetch_shorten)
qed

text \<open>
  C3 on the stored slug \<^verbatim>\<open>abc123\<close>: the request for \<^verbatim>\<open>https://b.com\<close> is answered 500 and
  the record of \<^verbatim>\<open>https://a.com\<close> stays.
\<close>

theorem shorten_existing_custom_slug_witness:
  "URL_KV sampleWorld ''abc123'' =
     Some \<lparr>originalUrl = ''https://a.com'', slug = ''abc123'',
           created = ''2025-01-01T00:00:00.000Z''\<rparr> \<and>
   fetch samplePlatform
     (sampleRequest ''POST'' ''/api/shorten'' (Some ''Bearer k1'')
        (JsonValue (Some (JString ''https://b.com'')) (Some ''abc123''))) sampleWorld =
   (jsonResponse (Error ''Server Error'') 500,
    sampleWorld\<lparr>calls := [KvGet LinkStore ''abc123'']\<rparr>)"
  using shorten_existing_custom_slug [of samplePlatform
      "sampleRequest ''POST'' ''/api/shorten'' (Some ''Bearer k1'')
         (JsonValue (Some (JString ''https://b.com'')) (Some ''abc123''))"
      sampleWorld "''https://b.com''" "''abc123''"]
  by (simp add: sample_authorized) (simp add: sampleRequest_def startsWith_def sampleWorld_def)

text \<open>
  C4. A request of a route that requires a key is to be answered 401 when it carries no
  valid key, whatever its body or the slug in its path. The info route decodes the slug
  of the path before it validates the key, and outside its \<^verbatim>\<open>try\<close>: the GET of
  \<^verbatim>\<open>/api/links/%FF\<close> with no Authorization header is answered 500, since
  \<^verbatim>\<open>decodeURIComponent\<close> throws on \<^verbatim>\<open>%FF\<close>. The other routes answer 401, and so does the
  info route on a path that decodes.
\<close>

theorem linkInfo_malformed_path_500:
  "validateApiKey samplePlatform (sampleRequest ''GET'' ''/api/links/%FF'' None Unparsable)
     sampleWorld = None \<and>
   decodeURIComponent samplePlatform ''%FF'' = None \<and>
   fetch samplePlatform (sampleRequest ''GET'' ''/api/links/%FF'' None Unparsable) sampleWorld =
   (\<lparr>status = 500, payload = Text ''server error''\<rparr>, sampleWorld)"
proof -
  let ?g = "sampleRequest ''GET'' ''/api/links/%FF'' None Unparsable"
  have "validateApiKey samplePlatform ?g sampleWorld = None"
    by (rule validateApiKey_no_header) (simp add: sampleRequest_def)
  moreover have dec: "decodeURIComponent samplePlatform ''%FF'' = None"
    by (simp add: samplePlatform_def sampleDecode_def)
  moreover have "fetch samplePlatform ?g sampleWorld = linkInfo samplePlatform ?g sampleWorld"
    by (rule fetch_linkInfo) (simp_all add: sampleRequest_def startsWith_def)
  then have "fetch samplePlatform ?g sampleWorld =
               (\<lparr>status = 500, payload = Text ''server error''\<rparr>, sampleWorld)"
    using dec by (simp add: linkInfo_def sampleRequest_def startsWith_def)
  ultimately show ?thesis
    by simp
qed

text \<open>
  C5. A redirect of a stored slug adds exactly one to the counter of the slug, as
  \<^verbatim>\<open>getClickCount\<close> reads it, and writes the decimal string of the new count; a counter
  that is missing is read as 0 and written as \<^verbatim>\<open>1\<close>. No other counter and no link
  changes. The request runs alone, and the count is below \<open>2 ^ 53\<close> in absolute value,
  where the numbers of JavaScript are the integers.
\<close>

theorem redirect_increments:
  assumes "httpMethod r = ''GET''" "pathname r = ''/'' @ s" "s \<noteq> []"
    and "\<not> reservedPath (''/'' @ s)" "\<not> startsWith (''/'' @ s) ''/api/''"
    and "URL_KV w s = Some stored"
    and "\<bar>fst (getClickCount s w)\<bar> < 2 ^ 53"
  shows "fst (getClickCount s (snd (fetch P r w))) = fst (getClickCount s w) + 1 \<and>
         LINK_CLICKS_KV (snd (fetch P r w)) s =
           Some (String_int (fst (getClickCount s w) + 1)) \<and>
         (LINK_CLICKS_KV w s = None \<longrightarrow>
            fst (getClickCount s w) = 0 \<and>
            LINK_CLICKS_KV (snd (fetch P r w)) s = Some ''1'') \<and>
         (\<forall>k. k \<noteq> s \<longrightarrow> LINK_CLICKS_KV (snd (fetch P r w)) k = LINK_CLICKS_KV w k) \<and>
         URL_KV (snd (fetch P r w)) = URL_KV w"
proof -
  let ?w1 = "w\<lparr>calls := calls w @ [KvGet LinkStore s]\<rparr>"
  let ?n = "fst (getClickCount s w)"
  have eq: "fetch P r w = redirect P r w"
    using assms(1-5) by (intro fetch_redirect [of r s]) simp_all
  have same: "fst (getClickCount s ?w1) = ?n"
    by (simp add: getClickCount_eq)
  have "snd (redirect P r w) = incrementClickCount s ?w1"
    using assms(2,3,6) by (simp add: redirect_def startsWith_def URL_KV_get_def Let_def)
  then have after: "snd (fetch P r w) =
      ?w1\<lparr>calls := calls ?w1 @ [KvGet ClickStore s, KvPut ClickStore s],
          LINK_CLICKS_KV := (LINK_CLICKS_KV ?w1)(s \<mapsto> String_int (?n + 1))\<rparr>"
    unfolding eq incrementClickCount_eq same .
  have read: "fst (getClickCount s (snd (fetch P r w))) = ?n + 1"
    unfolding after by (simp add: getClickCount_eq parseInt10_String_int)
  have first: "LINK_CLICKS_KV w s = None \<Longrightarrow> ?n = 0 \<and> String_int (?n + 1) = ''1''"
    by (simp add: getClickCount_missing String_int_1)
  show ?thesis
    using read first by (simp add: after String_int_1)
qed

text \<open>C5 on two redirects of \<^verbatim>\<open>abc123\<close> in a row: the counter is written 1, then read 2.\<close>

theorem redirect_increments_witness:
  "URL_KV sampleWorld ''abc123'' \<noteq> None \<and>
   LINK_CLICKS_KV sampleWorld ''abc123'' = None \<and>
   fst (getClickCount ''abc123'' sampleWorld) = 0 \<and>
   LINK_CLICKS_KV
     (snd (fetch samplePlatform (sampleRequest ''GET'' ''/abc123'' None Unparsable) sampleWorld))
     ''abc123'' = Some ''1'' \<and>
   fst (getClickCount ''abc123''
     (snd (fetch samplePlatform (sampleRequest ''GET'' ''/abc123'' None Unparsable)
        (snd (fetch samplePlatform (sampleRequest ''GET'' ''/abc123'' None Unparsable)
           sampleWorld))))) = 2"
proof -
  let ?g = "sampleRequest ''GET'' ''/abc123'' None Unparsable"
  let ?w1 = "snd (fetch samplePlatform ?g sampleWorld)"
  let ?link = "\<lparr>originalUrl = ''https://a.com'', slug = ''abc123'',
                created = ''2025-01-01T00:00:00.000Z''\<rparr>"
  have get: "httpMethod ?g = ''GET''" "pathname ?g = ''/'' @ ''abc123''"
    by (simp_all add: sampleRequest_def)
  have path: "''abc123'' \<noteq> []" "\<not> reservedPath (''/'' @ ''abc123'')"
    "\<not> startsWith (''/'' @ ''abc123'') ''/api/''"
    by (simp_all add: reservedPath_def startsWith_def)
  have stored: "URL_KV sampleWorld ''abc123'' = Some ?link"
    by (simp add: sampleWorld_def)
  have fresh: "LINK_CLICKS_KV sampleWorld ''abc123'' = None"
    by (simp add: sampleWorld_def)
  then have zero: "fst (getClickCount ''abc123'' sampleWorld) = 0"
    by (rule getClickCount_missing)
  then have small: "\<bar>fst (getClickCount ''abc123'' sampleWorld)\<bar> < 2 ^ 53"
    by simp
  note first = redirect_increments [OF get path stored small, of samplePlatform]
  have one: "fst (getClickCount ''abc123'' ?w1) = 1"
    and written: "LINK_CLICKS_KV ?w1 ''abc123'' = Some ''1''"
    and stored1: "URL_KV ?w1 ''abc123'' = Some ?link"
    using first fresh zero stored by (simp_all add: String_int_1)
  have small1: "\<bar>fst (getClickCount ''abc123'' ?w1)\<bar> < 2 ^ 53"
    using one by simp
  note second = redirect_increments [OF get path stored1 small1, of samplePlatform]
  have "fst (getClickCount ''abc123'' (snd (fetch samplePlatform ?g ?w1))) = 2"
    using second one by simp
  then show ?thesis
    using stored fresh zero written by simp
qed

text \<open>
  C6. For every authorized shorten request that supplies no slug and passes the check of
  its \<^verbatim>\<open>url\<close>, with every result of \<^verbatim>\<open>Math.random()\<close> a binary64 value from 0 to 1, 1
  left out: either one of the first five generated slugs is not in the Link Store, and
  then the slug returned is the first such one, it has 6 characters of the alphabet, it
  was looked up and found absent, and it is stored; or all five are in the Link Store,
  and then \<^verbatim>\<open>getUniqueSlug\<close> fails with its retries exhausted, the answer is 500 and
  nothing is stored. The Link Store is looked up once per generated slug, five times at
  most.
\<close>

theorem shorten_without_slug:
  assumes "validateApiKey P r w \<noteq> None"
    and "httpMethod r = ''POST''" "pathname r = ''/api/shorten''"
    and "body r = JsonValue (Some (JString u)) None" "startsWith u ''http''"
    and "\<forall>i. isBinary64 (Math_random w i) \<and> 0 \<le> Math_random w i \<and> Math_random w i < 1"
  shows "(\<exists>k<5. URL_KV w (candidate w k) = None \<and>
            (\<forall>j<k. URL_KV w (candidate w j) \<noteq> None) \<and>
            length (candidate w k) = 6 \<and> set (candidate w k) \<subseteq> set chars \<and>
            fst (fetch P r w) =
              jsonResponse (Shortened (origin r @ ''/'' @ candidate w k) (candidate w k)) 200 \<and>
            URL_KV (snd (fetch P r w)) =
              (URL_KV w)(candidate w k \<mapsto>
                 \<lparr>originalUrl = u, slug = candidate w k, created = Date_now w\<rparr>) \<and>
            calls (snd (fetch P r w)) =
              calls w @ map (\<lambda>j. KvGet LinkStore (candidate w j)) [0..<Suc k] @
              [KvPut LinkStore (candidate w k)]) \<or>
         ((\<forall>k<5. URL_KV w (candidate w k) \<noteq> None) \<and>
            fst (getUniqueSlug None 5 w) = Inl RetriesExhausted \<and>
            fst (fetch P r w) = jsonResponse (Error ''Server Error'') 500 \<and>
            URL_KV (snd (fetch P r w)) = URL_KV w \<and>
            calls (snd (fetch P r w)) =
              calls w @ map (\<lambda>j. KvGet LinkStore (candidate w j)) [0..<5])"
proof -
  have none: "\<not> given None"
    by (simp add: given_def)
  have eq: "fetch P r w = shorten P r w"
    using assms(2,3) by (rule fetch_shorten)
  have shape: "\<And>k. length (candidate w k) = 6 \<and> set (candidate w k) \<subseteq> set chars"
    using assms(6) by (rule candidate_shape)
  have ex: "(\<forall>k<5. URL_KV w (candidate w k) \<noteq> None) \<Longrightarrow>
            fst (getUniqueSlug None 5 w) = Inl RetriesExhausted"
    using getUniqueSlug_exhausted [OF none, of 5 w] by simp
  show ?thesis
    using shorten_not_given [OF assms(1,4,5) none] shape ex unfolding eq by blast
qed

text \<open>
  C6 on a \<^verbatim>\<open>Math.random()\<close> that returns \<open>1162219258676257 / 2 ^ 52\<close>: the slug is
  \<^verbatim>\<open>qqqqqq\<close>.
\<close>

theorem shorten_without_slug_witness:
  "(\<forall>i. isBinary64 (Math_random roundingWorld i) \<and>
        0 \<le> Math_random roundingWorld i \<and> Math_random roundingWorld i < 1) \<and>
   URL_KV roundingWorld ''qqqqqq'' = None \<and>
   fst (fetch samplePlatform
     (sampleRequest ''POST'' ''/api/shorten'' (Some ''Bearer k1'')
        (JsonValue (Some (JString ''https://b.com'')) None)) roundingWorld) =
   jsonResponse (Shortened ''https://sho.rt/qqqqqq'' ''qqqqqq'') 200"
proof -
  let ?r = "sampleRequest ''POST'' ''/api/shorten'' (Some ''Bearer k1'')
              (JsonValue (Some (JString ''https://b.com'')) None)"
  have free: "URL_KV roundingWorld ''qqqqqq'' = None"
    by (simp add: roundingWorld_def sampleWorld_def)
  have auth: "validateApiKey samplePlatform ?r roundingWorld \<noteq> None"
    by (simp add: rounding_authorized)
  have req: "httpMethod ?r = ''POST''" "pathname ?r = ''/api/shorten''"
    "body ?r = JsonValue (Some (JString ''https://b.com'')) None" "origin ?r = ''https://sho.rt''"
    by (simp_all add: sampleRequest_def)
  have url: "startsWith ''https://b.com'' ''http''"
    by (simp add: startsWith_def)
  have "\<not> (\<forall>k<5. URL_KV roundingWorld (candidate roundingWorld k) \<noteq> None)"
    using free by (auto simp: candidate_rounding intro: exI [of _ "0::nat"])
  with shorten_without_slug [OF auth req(1,2,3) url random_rounding]
  have "fst (fetch samplePlatform ?r roundingWorld) =
          jsonResponse (Shortened ''https://sho.rt/qqqqqq'' ''qqqqqq'') 200"
    unfolding candidate_rounding req(4) by auto
  then show ?thesis
    using free random_rounding by simp
qed

text \<open>
  C7. For every authorized POST of /api/shorten whose body has no \<^verbatim>\<open>url\<close> that is a
  string starting with \<^verbatim>\<open>http\<close>, the answer is 400 and the world is as before: no call
  to a store is made.
\<close>

theorem shorten_invalid_url:
  assumes "validateApiKey P r w \<noteq> None"
    and "httpMethod r = ''POST''" "pathname r = ''/api/shorten''"
    and "body r = JsonValue url c"
    and "\<not> (\<exists>u. url = Some (JString u) \<and> startsWith u ''http'')"
  shows "fetch P r w = (jsonResponse (Error ''Invalid URL'') 400, w)"
proof -
  have "shorten P r w = (jsonResponse (Error ''Invalid URL'') 400, w)"
    using assms(1,4,5)
    by (auto simp: shorten_def split: option.splits json.splits)
  then show ?thesis
    using assms(2,3) by (simp add: fetch_shorten)
qed

text \<open>C7 on the url \<^verbatim>\<open>ftp://x\<close>.\<close>

theorem shorten_invalid_url_witness:
  "validateApiKey samplePlatform
     (sampleRequest ''POST'' ''/api/shorten'' (Some ''Bearer k1'')
        (JsonValue (Some (JString ''ftp://x'')) None)) sampleWorld \<noteq> None \<and>
   \<not> startsWith ''ftp://x'' ''http'' \<and>
   fetch samplePlatform
     (sampleRequest ''POST'' ''/api/shorten'' (Some ''Bearer k1'')
        (JsonValue (Some (JString ''ftp://x'')) None)) sampleWorld =
   (jsonResponse (Error ''Invalid URL'') 400, sampleWorld)"
  using shorten_invalid_url [of samplePlatform
      "sampleRequest ''POST'' ''/api/shorten'' (Some ''Bearer k1'')
         (JsonValue (Some (JString ''ftp://x'')) None)"
      sampleWorld "Some (JString ''ftp://x'')" None]
  by (simp add: sample_authorized) (simp add: sampleRequest_def startsWith_def)

text \<open>
  C8. For every authorized delete request with a slug that is not empty (C9 is the other
  case): when the slug is not in the Link Store the answer is 404 and the world is as
  before but for the lookup; when it is, the answer is 200, the record is removed and
  nothing else of the Link Store changes, the Click Store is as before, and a GET of the
  slash and the slug that follows, on a path that the info and list routes do not take,
  is answered 404; on any path it is not answered by a redirect.
\<close>

theorem delete_link:
  assumes "validateApiKey P r w \<noteq> None"
    and "httpMethod r = ''DELETE''" "pathname r = ''/api/delete''"
    and "body r = JsonValue url (Some s)" "s \<noteq> []"
  shows "(URL_KV w s = None \<longrightarrow>
            fetch P r w =
              (jsonResponse (Error ''slug not found'') 404,
               w\<lparr>calls := calls w @ [KvGet LinkStore s]\<rparr>)) \<and>
         (URL_KV w s \<noteq> None \<longrightarrow>
            fst (fetch P r w) = jsonResponse (Message ''link deleted'') 200 \<and>
            URL_KV (snd (fetch P r w)) = (URL_KV w)(s := None) \<and>
            LINK_CLICKS_KV (snd (fetch P r w)) = LINK_CLICKS_KV w \<and>
            calls (snd (fetch P r w)) = calls w @ [KvGet LinkStore s, KvDelete LinkStore s] \<and>
            (\<forall>g. httpMethod g = ''GET'' \<and> pathname g = ''/'' @ s \<and>
                 \<not> reservedPath (''/'' @ s) \<longrightarrow>
               fst (fetch P g (snd (fetch P r w))) =
                 \<lparr>status = 404, payload = Text ''not found''\<rparr>) \<and>
            (\<forall>g. httpMethod g = ''GET'' \<and> pathname g = ''/'' @ s \<longrightarrow>
               status (fst (fetch P g (snd (fetch P r w)))) \<noteq> 301))"
proof -
  have eq: "fetch P r w = deleteLink P r w"
    using assms(2,3) by (rule fetch_deleteLink)
  have absent: "URL_KV w s = None \<Longrightarrow>
      deleteLink P r w =
        (jsonResponse (Error ''slug not found'') 404, w\<lparr>calls := calls w @ [KvGet LinkStore s]\<rparr>)"
    using assms(1,4,5) by (auto simp: deleteLink_def URL_KV_get_def)
  have present: "URL_KV w s \<noteq> None \<Longrightarrow>
      deleteLink P r w =
        (jsonResponse (Message ''link deleted'') 200,
         URL_KV_delete s (w\<lparr>calls := calls w @ [KvGet LinkStore s]\<rparr>))"
    using assms(1,4,5) by (auto simp: deleteLink_def URL_KV_get_def)
  have after: "fst (fetch P g w') = \<lparr>status = 404, payload = Text ''not found''\<rparr>"
    if g: "httpMethod g = ''GET''" "pathname g = ''/'' @ s" "\<not> reservedPath (''/'' @ s)"
      and gone: "URL_KV w' s = None" for g w'
  proof (cases "startsWith (''/'' @ s) ''/api/''")
    case True
    then show ?thesis
      using g assms(5) by (auto simp: fetch_def Let_def reservedPath_def)
  next
    case False
    then have "fetch P g w' = redirect P g w'"
      using g assms(5) by (intro fetch_redirect [of g s]) simp_all
    then show ?thesis
      using redirect_missing [OF g(2) assms(5) gone, of P] by simp
  qed
  show ?thesis
  proof (intro conjI impI allI)
    assume "URL_KV w s = None"
    then show "fetch P r w =
        (jsonResponse (Error ''slug not found'') 404, w\<lparr>calls := calls w @ [KvGet LinkStore s]\<rparr>)"
      unfolding eq by (rule absent)
  next
    assume p: "URL_KV w s \<noteq> None"
    show "fst (fetch P r w) = jsonResponse (Message ''link deleted'') 200"
      unfolding eq present [OF p] by simp
    show "URL_KV (snd (fetch P r w)) = (URL_KV w)(s := None)"
      unfolding eq present [OF p] by (simp add: URL_KV_delete_def)
    show "LINK_CLICKS_KV (snd (fetch P r w)) = LINK_CLICKS_KV w"
      unfolding eq present [OF p] by (simp add: URL_KV_delete_def)
    show "calls (snd (fetch P r w)) = calls w @ [KvGet LinkStore s, KvDelete LinkStore s]"
      unfolding eq present [OF p] by (simp add: URL_KV_delete_def)
    fix g :: request
    assume g: "httpMethod g = ''GET'' \<and> pathname g = ''/'' @ s \<and> \<not> reservedPath (''/'' @ s)"
    have "URL_KV (snd (fetch P r w)) s = None"
      unfolding eq present [OF p] by (simp add: URL_KV_delete_def)
    then show "fst (fetch P g (snd (fetch P r w))) = \<lparr>status = 404, payload = Text ''not found''\<rparr>"
      using g by (intro after) simp_all
  next
    fix g :: request
    assume p: "URL_KV w s \<noteq> None"
      and g: "httpMethod g = ''GET'' \<and> pathname g = ''/'' @ s"
    have gone: "URL_KV (snd (fetch P r w)) s = None"
      unfolding eq present [OF p] by (simp add: URL_KV_delete_def)
    show "status (fst (fetch P g (snd (fetch P r w)))) \<noteq> 301"
    proof (cases "reservedPath (''/'' @ s)")
      case True
      then show ?thesis
        using g by (intro reserved_not_301) simp_all
    next
      case False
      then have "fst (fetch P g (snd (fetch P r w))) =
                   \<lparr>status = 404, payload = Text ''not found''\<rparr>"
        using g gone by (intro after) simp_all
      then show ?thesis
        by simp
    qed
  qed
qed

text \<open>C8 on the stored slug \<^verbatim>\<open>abc123\<close> and on the unknown slug \<^verbatim>\<open>nope\<close>.\<close>

theorem delete_link_witness:
  "URL_KV sampleWorld ''abc123'' \<noteq> None \<and> \<not> reservedPath ''/abc123'' \<and>
   fst (fetch samplePlatform
     (sampleRequest ''DELETE'' ''/api/delete'' (Some ''Bearer k1'')
        (JsonValue None (Some ''abc123''))) sampleWorld) =
   jsonResponse (Message ''link deleted'') 200 \<and>
   LINK_CLICKS_KV (snd (fetch samplePlatform
     (sampleRequest ''DELETE'' ''/api/delete'' (Some ''Bearer k1'')
        (JsonValue None (Some ''abc123''))) sampleWorld)) = LINK_CLICKS_KV sampleWorld \<and>
   fst (fetch samplePlatform (sampleRequest ''GET'' ''/abc123'' None Unparsable)
     (snd (fetch samplePlatform
        (sampleRequest ''DELETE'' ''/api/delete'' (Some ''Bearer k1'')
           (JsonValue None (Some ''abc123''))) sampleWorld))) =
   \<lparr>status = 404, payload = Text ''not found''\<rparr> \<and>
   URL_KV sampleWorld ''nope'' = None \<and>
   fst (fetch samplePlatform
     (sampleRequest ''DELETE'' ''/api/delete'' (Some ''Bearer k1'')
        (JsonValue None (Some ''nope''))) sampleWorld) =
   jsonResponse (Error ''slug not found'') 404"
proof -
  let ?r = "sampleRequest ''DELETE'' ''/api/delete'' (Some ''Bearer k1'')
              (JsonValue None (Some ''abc123''))"
  let ?n = "sampleRequest ''DELETE'' ''/api/delete'' (Some ''Bearer k1'')
              (JsonValue None (Some ''nope''))"
  let ?g = "sampleRequest ''GET'' ''/abc123'' None Unparsable"
  have there: "URL_KV sampleWorld ''abc123'' \<noteq> None" and gone: "URL_KV sampleWorld ''nope'' = None"
    by (simp_all add: sampleWorld_def)
  have auth: "validateApiKey samplePlatform ?r sampleWorld \<noteq> None"
    "validateApiKey samplePlatform ?n sampleWorld \<noteq> None"
    by (simp_all add: sample_authorized)
  have req: "httpMethod ?r = ''DELETE''" "pathname ?r = ''/api/delete''"
    "body ?r = JsonValue None (Some ''abc123'')"
    "httpMethod ?n = ''DELETE''" "pathname ?n = ''/api/delete''"
    "body ?n = JsonValue None (Some ''nope'')"
    by (simp_all add: sampleRequest_def)
  have get: "httpMethod ?g = ''GET'' \<and> pathname ?g = ''/'' @ ''abc123'' \<and>
             \<not> reservedPath (''/'' @ ''abc123'')"
    by (simp add: sampleRequest_def reservedPath_def startsWith_def)
  have path: "\<not> reservedPath ''/abc123''"
    by (simp add: reservedPath_def startsWith_def)
  show ?thesis
    using delete_link [OF auth(1) req(1,2,3), of] delete_link [OF auth(2) req(4,5,6)]
      there gone get path
    by simp
qed

text \<open>
  C9, as stated, fails. An authorized DELETE of /api/delete whose body is not JSON
  supplies no slug; \<^verbatim>\<open>request.json()\<close> rejects, and the answer is 500 with
  \<^verbatim>\<open>server error\<close>, not 400 with \<^verbatim>\<open>missing slug\<close>.
\<close>

theorem delete_unparsable_body_500:
  "validateApiKey samplePlatform
     (sampleRequest ''DELETE'' ''/api/delete'' (Some ''Bearer k1'') Unparsable) sampleWorld \<noteq>
   None \<and>
   fetch samplePlatform
     (sampleRequest ''DELETE'' ''/api/delete'' (Some ''Bearer k1'') Unparsable) sampleWorld =
   (jsonResponse (Error ''server error'') 500, sampleWorld)"
proof -
  let ?r = "sampleRequest ''DELETE'' ''/api/delete'' (Some ''Bearer k1'') Unparsable"
  have auth: "validateApiKey samplePlatform ?r sampleWorld \<noteq> None"
    by (simp add: sample_authorized)
  have "fetch samplePlatform ?r sampleWorld = deleteLink samplePlatform ?r sampleWorld"
    by (rule fetch_deleteLink) (simp_all add: sampleRequest_def)
  moreover have "body ?r = Unparsable"
    by (simp add: sampleRequest_def)
  ultimately show ?thesis
    using auth by (auto simp: deleteLink_def)
qed

text \<open>
  C9, amended. For every authorized DELETE of /api/delete: when the body is JSON, is
  not null and supplies no slug or the empty slug, the answer is 400 with
  \<^verbatim>\<open>missing slug\<close>; when the body is not JSON, or is null, the answer is 500 with
  \<^verbatim>\<open>server error\<close>. No store is called in either case.
\<close>

theorem delete_missing_slug:
  assumes "validateApiKey P r w \<noteq> None"
    and "httpMethod r = ''DELETE''" "pathname r = ''/api/delete''"
  shows "(\<forall>url s. body r = JsonValue url s \<and> \<not> given s \<longrightarrow>
            fetch P r w = (jsonResponse (Error ''missing slug'') 400, w)) \<and>
         (body r = Unparsable \<or> body r = JsonNull \<longrightarrow>
            fetch P r w = (jsonResponse (Error ''server error'') 500, w))"
proof -
  have eq: "fetch P r w = deleteLink P r w"
    using assms(2,3) by (rule fetch_deleteLink)
  have missing: "deleteLink P r w = (jsonResponse (Error ''missing slug'') 400, w)"
    if "body r = JsonValue url s" "\<not> given s" for url s
    using that assms(1) by (cases s) (auto simp: deleteLink_def given_def)
  have broken: "deleteLink P r w = (jsonResponse (Error ''server error'') 500, w)"
    if "body r = Unparsable \<or> body r = JsonNull"
    using that assms(1) by (auto simp: deleteLink_def)
  show ?thesis
    unfolding eq using missing broken by blast
qed

text \<open>C9, amended, on the empty slug, on no slug and on the body null.\<close>

theorem delete_missing_slug_witness:
  "\<not> given (Some []) \<and> \<not> given None \<and>
   fetch samplePlatform
     (sampleRequest ''DELETE'' ''/api/delete'' (Some ''Bearer k1'') (JsonValue None (Some [])))
     sampleWorld = (jsonResponse (Error ''missing slug'') 400, sampleWorld) \<and>
   fetch samplePlatform
     (sampleRequest ''DELETE'' ''/api/delete'' (Some ''Bearer k1'') (JsonValue None None))
     sampleWorld = (jsonResponse (Error ''missing slug'') 400, sampleWorld) \<and>
   fetch samplePlatform
     (sampleRequest ''DELETE'' ''/api/delete'' (Some ''Bearer k1'') JsonNull)
     sampleWorld = (jsonResponse (Error ''server error'') 500, sampleWorld)"
proof -
  let ?e = "sampleRequest ''DELETE'' ''/api/delete'' (Some ''Bearer k1'') (JsonValue None (Some []))"
  let ?a = "sampleRequest ''DELETE'' ''/api/delete'' (Some ''Bearer k1'') (JsonValue None None)"
  let ?n = "sampleRequest ''DELETE'' ''/api/delete'' (Some ''Bearer k1'') JsonNull"
  have auth: "validateApiKey samplePlatform ?e sampleWorld \<noteq> None"
    "validateApiKey samplePlatform ?a sampleWorld \<noteq> None"
    "validateApiKey samplePlatform ?n sampleWorld \<noteq> None"
    by (simp_all add: sample_authorized)
  have req: "httpMethod ?e = ''DELETE''" "pathname ?e = ''/api/delete''"
    "httpMethod ?a = ''DELETE''" "pathname ?a = ''/api/delete''"
    "httpMethod ?n = ''DELETE''" "pathname ?n = ''/api/delete''"
    by (simp_all add: sampleRequest_def)
  have bodies: "body ?e = JsonValue None (Some [])" "body ?a = JsonValue None None"
    "body ?n = JsonNull"
    by (simp_all add: sampleRequest_def)
  have falsy: "\<not> given (Some [])" "\<not> given None"
    by (simp_all add: given_def)
  note e = delete_missing_slug [OF auth(1) req(1,2), THEN conjunct1, rule_format, of None "Some []"]
  note a = delete_missing_slug [OF auth(2) req(3,4), THEN conjunct1, rule_format, of None None]
  note n = delete_missing_slug [OF auth(3) req(5,6), THEN conjunct2, rule_format]
  show ?thesis
    using e a n bodies falsy by blast
qed

text \<open>
  C10. A shorten request whose body gives the empty string as slug is answered as the
  same request with no slug, in the same world after it. \<^verbatim>\<open>getUniqueSlug\<close> does not fail
  on a duplicate, no call the request makes looks up or stores the empty string, and,
  with every result of \<^verbatim>\<open>Math.random()\<close> a binary64 value from 0 to 1, 1 left out, a
  slug that is returned is one of the first five generated slugs, of 6 characters of the
  alphabet, and was not in the Link Store.
\<close>

theorem shorten_empty_slug:
  assumes "httpMethod r = ''POST''" "pathname r = ''/api/shorten''"
    and "body r = JsonValue url (Some [])"
  shows "fetch P r w = fetch P (r\<lparr>body := JsonValue url None\<rparr>) w \<and>
         fst (getUniqueSlug (Some []) 5 w) \<noteq> Inl CustomSlugExists \<and>
         (\<forall>x \<in> set (drop (length (calls w)) (calls (snd (fetch P r w)))).
            x \<noteq> KvGet LinkStore [] \<and> x \<noteq> KvPut LinkStore []) \<and>
         ((\<forall>i. isBinary64 (Math_random w i) \<and> 0 \<le> Math_random w i \<and> Math_random w i < 1) \<longrightarrow>
          (\<forall>short s. payload (fst (fetch P r w)) = Shortened short s \<longrightarrow>
             length s = 6 \<and> set s \<subseteq> set chars \<and> URL_KV w s = None \<and>
             (\<exists>k<5. s = candidate w k)))"
proof -
  have empty: "\<not> given (Some [])"
    by (simp add: given_def)
  have eq: "fetch P r w = shorten P r w"
    using assms(1,2) by (rule fetch_shorten)
  have "shorten P r w = shorten P (r\<lparr>body := JsonValue url None\<rparr>) w"
    by (simp add: shorten_def assms(3) getUniqueSlug_empty
        split: option.splits json.splits prod.splits sum.splits)
  then have same: "fetch P r w = fetch P (r\<lparr>body := JsonValue url None\<rparr>) w"
    using assms(1,2) by (simp add: fetch_shorten)
  have nodup: "fst (getUniqueSlug (Some []) 5 w) \<noteq> Inl CustomSlugExists"
  proof (cases "\<exists>k<5. URL_KV w (candidate w k) = None")
    case True
    then have "\<exists>k. k < 5 \<and> URL_KV w (candidate w k) = None"
      by blast
    then obtain k where "k < 5 \<and> URL_KV w (candidate w k) = None"
      and "\<forall>j<k. \<not> (j < 5 \<and> URL_KV w (candidate w j) = None)"
      unfolding exists_least_iff [of "\<lambda>k. k < 5 \<and> URL_KV w (candidate w k) = None"] by blast
    then show ?thesis
      using getUniqueSlug_found [OF empty, of k 5 w] by auto
  next
    case False
    then show ?thesis
      using getUniqueSlug_exhausted [OF empty, of 5 w] by simp
  qed
  have rest:
    "(\<forall>x \<in> set (drop (length (calls w)) (calls (snd (shorten P r w)))).
        x \<noteq> KvGet LinkStore [] \<and> x \<noteq> KvPut LinkStore []) \<and>
     ((\<forall>i. isBinary64 (Math_random w i) \<and> 0 \<le> Math_random w i \<and> Math_random w i < 1) \<longrightarrow>
      (\<forall>short s. payload (fst (shorten P r w)) = Shortened short s \<longrightarrow>
         length s = 6 \<and> set s \<subseteq> set chars \<and> URL_KV w s = None \<and>
         (\<exists>k<5. s = candidate w k)))"
  proof (cases "validateApiKey P r w \<noteq> None \<and> (\<exists>u. url = Some (JString u) \<and> startsWith u ''http'')")
    case False
    then have "snd (shorten P r w) = w \<and>
               (\<forall>short s. payload (fst (shorten P r w)) \<noteq> Shortened short s)"
      using assms(3) by (intro shorten_rejected) auto
    then show ?thesis
      by simp
  next
    case True
    then obtain u where auth: "validateApiKey P r w \<noteq> None"
      and b: "body r = JsonValue (Some (JString u)) (Some [])" and u: "startsWith u ''http''"
      using assms(3) by auto
    note cases = shorten_not_given [OF auth b u empty]
    have ne: "\<And>j. candidate w j \<noteq> []"
      by (rule candidate_nonempty)
    have shape: "(\<forall>i. isBinary64 (Math_random w i) \<and> 0 \<le> Math_random w i \<and> Math_random w i < 1) \<Longrightarrow>
                 length (candidate w k) = 6 \<and> set (candidate w k) \<subseteq> set chars" for k
      by (rule candidate_shape)
    from cases show ?thesis
    proof (elim disjE exE conjE)
      fix k
      assume k: "k < 5" "URL_KV w (candidate w k) = None"
        and resp: "fst (shorten P r w) =
          jsonResponse (Shortened (origin r @ ''/'' @ candidate w k) (candidate w k)) 200"
        and cl: "calls (snd (shorten P r w)) =
          calls w @ map (\<lambda>j. KvGet LinkStore (candidate w j)) [0..<Suc k] @
          [KvPut LinkStore (candidate w k)]"
      have "\<forall>x \<in> set (drop (length (calls w)) (calls (snd (shorten P r w)))).
              x \<noteq> KvGet LinkStore [] \<and> x \<noteq> KvPut LinkStore []"
        unfolding cl using ne by (auto simp del: upt_Suc)
      moreover have "payload (fst (shorten P r w)) =
          Shortened (origin r @ ''/'' @ candidate w k) (candidate w k)"
        unfolding resp by (simp add: jsonResponse_def)
      ultimately show ?thesis
        using k shape [of k] by auto
    next
      assume resp: "fst (shorten P r w) = jsonResponse (Error ''Server Error'') 500"
        and cl: "calls (snd (shorten P r w)) =
          calls w @ map (\<lambda>j. KvGet LinkStore (candidate w j)) [0..<5]"
      have "\<forall>x \<in> set (drop (length (calls w)) (calls (snd (shorten P r w)))).
              x \<noteq> KvGet LinkStore [] \<and> x \<noteq> KvPut LinkStore []"
        unfolding cl using ne by auto
      moreover have "payload (fst (shorten P r w)) = Error ''Server Error''"
        unfolding resp by (simp add: jsonResponse_def)
      ultimately show ?thesis
        by simp
    qed
  qed
  show ?thesis
    using same nodup rest unfolding eq by blast
qed

text \<open>
  C10 on a \<^verbatim>\<open>Math.random()\<close> that returns 0: both requests return \<^verbatim>\<open>aaaaaa\<close>, a
  generated slug that was not in the Link Store.
\<close>

theorem shorten_empty_slug_witness:
  "(\<forall>i. isBinary64 (Math_random sampleWorld i) \<and>
        0 \<le> Math_random sampleWorld i \<and> Math_random sampleWorld i < 1) \<and>
   fetch samplePlatform
     (sampleRequest ''POST'' ''/api/shorten'' (Some ''Bearer k1'')
        (JsonValue (Some (JString ''https://b.com'')) (Some []))) sampleWorld =
   fetch samplePlatform
     (sampleRequest ''POST'' ''/api/shorten'' (Some ''Bearer k1'')
        (JsonValue (Some (JString ''https://b.com'')) None)) sampleWorld \<and>
   fst (fetch samplePlatform
     (sampleRequest ''POST'' ''/api/shorten'' (Some ''Bearer k1'')
        (JsonValue (Some (JString ''https://b.com'')) (Some []))) sampleWorld) =
   jsonResponse (Shortened ''https://sho.rt/aaaaaa'' ''aaaaaa'') 200 \<and>
   length ''aaaaaa'' = 6 \<and> set ''aaaaaa'' \<subseteq> set chars \<and>
   URL_KV sampleWorld ''aaaaaa'' = None \<and> (\<exists>k<5. ''aaaaaa'' = candidate sampleWorld k)"
proof -
  let ?e = "sampleRequest ''POST'' ''/api/shorten'' (Some ''Bearer k1'')
              (JsonValue (Some (JString ''https://b.com'')) (Some []))"
  let ?n = "sampleRequest ''POST'' ''/api/shorten'' (Some ''Bearer k1'')
              (JsonValue (Some (JString ''https://b.com'')) None)"
  have req: "httpMethod ?e = ''POST''" "pathname ?e = ''/api/shorten''"
    "body ?e = JsonValue (Some (JString ''https://b.com'')) (Some [])"
    by (simp_all add: sampleRequest_def)
  have upd: "?e\<lparr>body := JsonValue (Some (JString ''https://b.com'')) None\<rparr> = ?n"
    by (simp add: sampleRequest_def)
  note inst = shorten_empty_slug [OF req, of samplePlatform sampleWorld]
  have same: "fetch samplePlatform ?e sampleWorld = fetch samplePlatform ?n sampleWorld"
    using inst [THEN conjunct1] unfolding upd .
  then have resp: "fst (fetch samplePlatform ?e sampleWorld) =
      jsonResponse (Shortened ''https://sho.rt/aaaaaa'' ''aaaaaa'') 200"
    using sample_generated by simp
  then have "payload (fst (fetch samplePlatform ?e sampleWorld)) =
      Shortened ''https://sho.rt/aaaaaa'' ''aaaaaa''"
    by (simp add: jsonResponse_def)
  then have "length ''aaaaaa'' = 6 \<and> set ''aaaaaa'' \<subseteq> set chars \<and>
      URL_KV sampleWorld ''aaaaaa'' = None \<and> (\<exists>k<5. ''aaaaaa'' = candidate sampleWorld k)"
    using inst [THEN conjunct2, THEN conjunct2, THEN conjunct2] random_sample by blast
  then show ?thesis
    using same resp random_sample by blast
qed

end
